(* ===== verification/Prelude.thy ===== *)
theory Prelude
  imports Complex_Main "HOL-Library.AList" "HOL-Library.Word" "HOL-Library.Sublist"
begin

text \<open>
  The vocabulary shared by every component theory: Python values and exceptions, list
  slicing with Python's index rules, insertion-ordered dictionaries as association lists,
  decimal printing of integers, and the generic facts about them that the component
  proofs use. Python integers are \<open>int\<close>, byte strings and (UTF-8 encoded) text are
  \<open>string\<close> (a list of 8-bit characters), numpy \<open>uint64\<close> values are \<open>64 word\<close>, sets are
  HOL sets, and a call that may raise returns a sum whose left part is the exception.
\<close>

named_theorems py_simps \<open>rewrite rules for slices, strides and dictionaries\<close>
named_theorems frame_simps \<open>which fields an operation leaves alone\<close>

type_synonym bytes = string
type_synonym u64 = "64 word"

datatype exc =
    StoreNotFoundError
  | StoreUnhealthyError
  | RuntimeError string
  | ValueError string
  | TypeError string
  | KeyError
  | IndexError
  | OverflowError
  | ZeroDivisionError
  | AssertionError
  | NotImplementedError
  | RequestHashError string
  | OtherException string

type_synonym 'a res = "exc + 'a"

section \<open>Results that may be exceptions\<close>

definition bindR :: "'a res \<Rightarrow> ('a \<Rightarrow> 'b res) \<Rightarrow> 'b res" where
  "bindR r f = (case r of Inl e \<Rightarrow> Inl e | Inr x \<Rightarrow> f x)"

definition guardR :: "bool \<Rightarrow> exc \<Rightarrow> unit res" where
  "guardR b e = (if b then Inr () else Inl e)"

text \<open>A list comprehension (or a loop that appends) whose body may raise.\<close>

fun mapR :: "('a \<Rightarrow> 'b res) \<Rightarrow> 'a list \<Rightarrow> 'b list res" where
  "mapR f [] = Inr []"
| "mapR f (x # xs) =
     (case f x of Inl e \<Rightarrow> Inl e
      | Inr y \<Rightarrow> (case mapR f xs of Inl e \<Rightarrow> Inl e | Inr ys \<Rightarrow> Inr (y # ys)))"

section \<open>Slices\<close>

text \<open>
  \<open>xs[a:b]\<close>: a negative index counts from the end, and both are clamped to the list.
\<close>

definition clamp_index :: "int \<Rightarrow> int \<Rightarrow> int" where
  "clamp_index n i = (if i < 0 then max 0 (n + i) else min n i)"

definition py_slice :: "'a list \<Rightarrow> int \<Rightarrow> int \<Rightarrow> 'a list" where
  "py_slice xs a b =
     (let n = int (length xs); i = nat (clamp_index n a); j = nat (clamp_index n b)
      in take (j - i) (drop i xs))"

definition py_from :: "'a list \<Rightarrow> int \<Rightarrow> 'a list" where
  "py_from xs a = drop (nat (clamp_index (int (length xs)) a)) xs"

definition py_upto :: "'a list \<Rightarrow> int \<Rightarrow> 'a list" where
  "py_upto xs b = take (nat (clamp_index (int (length xs)) b)) xs"

text \<open>\<open>xs[i::n]\<close> for \<open>0 \<le> i\<close> and \<open>0 < n\<close>.\<close>

definition py_stride :: "'a list \<Rightarrow> nat \<Rightarrow> nat \<Rightarrow> 'a list" where
  "py_stride xs i n = map (\<lambda>j. xs ! j) (filter (\<lambda>j. i \<le> j \<and> (j - i) mod n = 0) [0..<length xs])"

text \<open>\<open>xs[i]\<close>: negative indices count from the end, anything else out of range raises.\<close>

definition py_nth :: "'a list \<Rightarrow> int \<Rightarrow> 'a res" where
  "py_nth xs i =
     (let j = (if i < 0 then i + int (length xs) else i)
      in if j < 0 \<or> int (length xs) \<le> j then Inl IndexError else Inr (xs ! nat j))"

text \<open>\<open>math.ceil(a / b)\<close> on integers.\<close>

definition ceil_div :: "int \<Rightarrow> int \<Rightarrow> int" where
  "ceil_div a b = - ((- a) div b)"

section \<open>Insertion-ordered dictionaries\<close>

text \<open>
  A \<open>dict\<close> is an association list with distinct keys: \<open>d[k] = v\<close> replaces the value in
  place or appends (\<open>AList.update\<close>), \<open>d.pop(k, None)\<close> removes (\<open>AList.delete\<close>),
  \<open>d.get(k)\<close> is \<open>map_of d k\<close>, and \<open>d.items()\<close> is the list itself.
\<close>

definition dict_wf :: "('k \<times> 'v) list \<Rightarrow> bool" where
  "dict_wf d = distinct (map fst d)"

fun dict_update :: "('k \<times> 'v) list \<Rightarrow> ('k \<times> 'v) list \<Rightarrow> ('k \<times> 'v) list" where
  "dict_update d [] = d"
| "dict_update d ((k, v) # e) = dict_update (AList.update k v d) e"

text \<open>Removing every key of a set (the order of the removals does not matter).\<close>

definition dict_drop :: "'k set \<Rightarrow> ('k \<times> 'v) list \<Rightarrow> ('k \<times> 'v) list" where
  "dict_drop ks d = filter (\<lambda>p. fst p \<notin> ks) d"

definition dict_get :: "('k \<times> 'v) list \<Rightarrow> 'k \<Rightarrow> 'v res" where
  "dict_get d k = (case map_of d k of None \<Rightarrow> Inl KeyError | Some v \<Rightarrow> Inr v)"

section \<open>Decimal printing\<close>

definition digit_char :: "nat \<Rightarrow> char" where
  "digit_char d = char_of (48 + d)"

fun str_of_nat :: "nat \<Rightarrow> string" where
  "str_of_nat n =
     (if n < 10 then [digit_char n] else str_of_nat (n div 10) @ [digit_char (n mod 10)])"

declare str_of_nat.simps [simp del]

definition str_of_int :: "int \<Rightarrow> string" where
  "str_of_int i = (if i < 0 then ''-'' @ str_of_nat (nat (- i)) else str_of_nat (nat i))"

definition nat_of_str :: "string \<Rightarrow> nat" where
  "nat_of_str s = foldl (\<lambda>a c. 10 * a + (of_char c - 48)) 0 s"

section \<open>Facts about results\<close>

lemma bindR_simps [simp]: "bindR (Inl e) f = Inl e" "bindR (Inr x) f = f x"
  by (simp_all add: bindR_def)

text \<open>A guard that raises: a normal result means it did not.\<close>

lemma raise_if_eq_Inr: "(if b then Inl e else y) = Inr z \<longleftrightarrow> \<not> b \<and> y = Inr z"
  by simp

lemma bindR_eq_Inr: "bindR r f = Inr y \<longleftrightarrow> (\<exists>x. r = Inr x \<and> f x = Inr y)"
  by (cases r) simp_all

lemma bindR_cong [fundef_cong]:
  "r = r' \<Longrightarrow> (\<And>x. r' = Inr x \<Longrightarrow> f x = f' x) \<Longrightarrow> bindR r f = bindR r' f'"
  by (cases r') simp_all

lemma guardR_eq_Inr [simp]: "guardR b e = Inr u \<longleftrightarrow> b"
  by (simp add: guardR_def)

lemma guardR_eq_Inl [simp]: "guardR b e = Inl e' \<longleftrightarrow> \<not> b \<and> e' = e"
  by (auto simp: guardR_def)

lemma mapR_cong [fundef_cong]:
  "xs = xs' \<Longrightarrow> (\<And>x. x \<in> set xs' \<Longrightarrow> f x = f' x) \<Longrightarrow> mapR f xs = mapR f' xs'"
  by (induction xs' arbitrary: xs) (auto split: sum.splits)

lemma mapR_eq_Inr: "mapR f xs = Inr ys \<longleftrightarrow> list_all2 (\<lambda>x y. f x = Inr y) xs ys"
proof (induction xs arbitrary: ys)
  case (Cons x xs)
  show ?case
  proof (cases "f x")
    case (Inr y)
    then show ?thesis
      using Cons.IH by (cases "mapR f xs") (auto simp: list_all2_Cons1)
  qed (simp add: list_all2_Cons1)
qed auto

lemma mapR_length: "mapR f xs = Inr ys \<Longrightarrow> length ys = length xs"
  by (auto simp: mapR_eq_Inr dest: list_all2_lengthD)

lemma mapR_nth: "mapR f xs = Inr ys \<Longrightarrow> i < length xs \<Longrightarrow> f (xs ! i) = Inr (ys ! i)"
  by (auto simp: mapR_eq_Inr list_all2_conv_all_nth)

lemma mapR_set: "mapR f xs = Inr ys \<Longrightarrow> y \<in> set ys \<Longrightarrow> \<exists>x\<in>set xs. f x = Inr y"
  by (induction xs arbitrary: ys) (auto split: sum.splits)

lemma mapR_total: "(\<And>x. x \<in> set xs \<Longrightarrow> f x = Inr (g x)) \<Longrightarrow> mapR f xs = Inr (map g xs)"
  by (induction xs) auto

section \<open>Facts about slices\<close>

lemma clamp_index_bounds: "0 \<le> n \<Longrightarrow> 0 \<le> clamp_index n i \<and> clamp_index n i \<le> n"
  by (auto simp: clamp_index_def)

lemma nat_clamp_index: "0 \<le> i \<Longrightarrow> nat (clamp_index (int n) i) = min n (nat i)"
  by (auto simp: clamp_index_def min_def nat_le_iff le_nat_iff)

lemma take_drop_clamp:
  "n = length xs \<Longrightarrow> take (min n k - min n m) (drop (min n m) xs) = take (k - m) (drop m xs)"
  by (cases "m \<le> n"; cases "k \<le> n") simp_all

lemma py_slice_nonneg:
  "0 \<le> a \<Longrightarrow> 0 \<le> b \<Longrightarrow> py_slice xs a b = take (nat b - nat a) (drop (nat a) xs)"
  by (simp add: py_slice_def Let_def nat_clamp_index take_drop_clamp)

lemma py_from_nonneg: "0 \<le> a \<Longrightarrow> py_from xs a = drop (nat a) xs"
  by (cases "nat a \<le> length xs") (simp_all add: py_from_def nat_clamp_index)

lemma py_upto_nonneg: "0 \<le> b \<Longrightarrow> py_upto xs b = take (nat b) xs"
  by (cases "nat b \<le> length xs") (simp_all add: py_upto_def nat_clamp_index)

lemmas py_slice_simps [py_simps] = py_slice_nonneg py_from_nonneg py_upto_nonneg

lemma length_py_slice:
  "0 \<le> a \<Longrightarrow> a \<le> b \<Longrightarrow> b \<le> int (length xs) \<Longrightarrow> int (length (py_slice xs a b)) = b - a"
  by (simp add: py_slice_nonneg)

lemma take_drop_append:
  assumes "a \<le> b" "b \<le> c"
  shows "take (b - a) (drop a xs) @ take (c - b) (drop b xs) = take (c - a) (drop a xs)"
proof -
  have "drop b xs = drop (b - a) (drop a xs)" using assms by simp
  moreover have "c - a = (b - a) + (c - b)" using assms by simp
  ultimately show ?thesis by (simp only: take_add)
qed

lemma py_slice_append:
  assumes "0 \<le> a" "a \<le> b" "b \<le> c"
  shows "py_slice xs a b @ py_slice xs b c = py_slice xs a c"
proof -
  have "0 \<le> b" "0 \<le> c" using assms by linarith+
  then show ?thesis
    using assms take_drop_append [of "nat a" "nat b" "nat c" xs]
    by (simp add: py_slice_nonneg nat_mono)
qed

lemma py_slice_empty [simp]: "py_slice [] a b = []"
  by (simp add: py_slice_def)

lemma set_py_slice: "set (py_slice xs a b) \<subseteq> set xs"
  by (auto simp: py_slice_def Let_def dest: in_set_takeD in_set_dropD)

lemma py_nth_ok: "0 \<le> i \<Longrightarrow> i < int (length xs) \<Longrightarrow> py_nth xs i = Inr (xs ! nat i)"
  by (simp add: py_nth_def)

lemma ceil_div_bounds:
  assumes "0 < b"
  shows "a \<le> ceil_div a b * b" "ceil_div a b * b < a + b"
proof -
  have e: "(- a) div b * b + (- a) mod b = - a" by (rule div_mult_mod_eq)
  have m: "0 \<le> (- a) mod b" "(- a) mod b < b" using assms by simp_all
  have c: "ceil_div a b * b = - ((- a) div b * b)" by (simp add: ceil_div_def)
  show "a \<le> ceil_div a b * b" "ceil_div a b * b < a + b"
    unfolding c using e m by linarith+
qed

lemma ceil_div_mult [simp]: "0 < b \<Longrightarrow> ceil_div (k * b) b = k"
proof -
  assume "0 < b"
  then have "- k * b div b = - k" by (rule nonzero_mult_div_cancel_right [OF less_imp_neq [symmetric]])
  then show ?thesis by (simp add: ceil_div_def)
qed

lemma set_py_stride:
  "set (py_stride xs i n) = {xs ! j | j. j < length xs \<and> i \<le> j \<and> (j - i) mod n = 0}"
  by (auto simp: py_stride_def)

lemma py_stride_map: "py_stride (map f xs) i n = map f (py_stride xs i n)"
  by (simp add: py_stride_def)

lemma py_stride_zip:
  "length xs = length ys \<Longrightarrow> zip (py_stride xs i n) (py_stride ys i n) = py_stride (zip xs ys) i n"
  by (simp add: py_stride_def zip_map_map zip_same_conv_map)

lemma length_py_stride_eq: "length xs = length ys \<Longrightarrow> length (py_stride xs i n) = length (py_stride ys i n)"
  by (simp add: py_stride_def)

section \<open>Facts about dictionaries\<close>

lemma map_of_update [simp]: "map_of (AList.update k v d) = (map_of d)(k \<mapsto> v)"
  by (simp add: AList.update_conv')

lemma map_of_delete_eq [simp]: "map_of (AList.delete k d) = (map_of d)(k := None)"
  by (simp add: AList.delete_conv')

lemma keys_update [simp]: "fst ` set (AList.update k v d) = insert k (fst ` set d)"
  by (simp add: AList.dom_update)

lemma keys_delete [simp]: "fst ` set (AList.delete k d) = fst ` set d - {k}"
  by (auto simp: AList.delete_eq image_iff)

lemma dict_wf_Nil [simp]: "dict_wf []"
  by (simp add: dict_wf_def)

lemma dict_wf_update [simp]: "dict_wf d \<Longrightarrow> dict_wf (AList.update k v d)"
  by (simp add: dict_wf_def AList.distinct_update)

lemma dict_wf_delete [simp]: "dict_wf d \<Longrightarrow> dict_wf (AList.delete k d)"
  by (simp add: dict_wf_def AList.distinct_delete)

lemma dict_wf_drop [simp]: "dict_wf d \<Longrightarrow> dict_wf (dict_drop ks d)"
  by (simp add: dict_wf_def dict_drop_def distinct_map_filter)

lemma map_of_drop [simp]: "map_of (dict_drop ks d) k = (if k \<in> ks then None else map_of d k)"
  by (induction d) (auto simp: dict_drop_def)

lemma keys_drop [simp]: "fst ` set (dict_drop ks d) = fst ` set d - ks"
  by (auto simp: dict_drop_def)

lemma dict_wf_map_of: "dict_wf d \<Longrightarrow> (k, v) \<in> set d \<Longrightarrow> map_of d k = Some v"
  by (simp add: dict_wf_def)

lemma dict_mem_update:
  "(k', v') \<in> set (AList.update k v d) \<Longrightarrow> (k', v') = (k, v) \<or> (k', v') \<in> set d"
  by (induction d) (auto split: if_splits)

lemma dict_update_map_of: "map_of (dict_update d e) = map_of d ++ map_of (rev e)"
  by (induction d e rule: dict_update.induct) (auto simp: map_add_def fun_eq_iff split: option.splits)

lemma dict_update_wf [simp]: "dict_wf d \<Longrightarrow> dict_wf (dict_update d e)"
  by (induction d e rule: dict_update.induct) auto

lemma dict_get_eq_Inr [simp]: "dict_get d k = Inr v \<longleftrightarrow> map_of d k = Some v"
  by (simp add: dict_get_def split: option.splits)

section \<open>Facts about decimal printing\<close>

lemma of_char_digit: "d < 10 \<Longrightarrow> of_char (digit_char d) = (48 + d :: nat)"
  by (simp add: digit_char_def)

lemma nat_of_str_append: "nat_of_str (s @ [c]) = 10 * nat_of_str s + (of_char c - 48)"
  by (simp add: nat_of_str_def)

lemma nat_of_str_of_nat [simp]: "nat_of_str (str_of_nat n) = n"
proof (induction n rule: str_of_nat.induct)
  case (1 n)
  show ?case
  proof (cases "n < 10")
    case True
    then show ?thesis
      by (simp add: str_of_nat.simps [of n] nat_of_str_def of_char_digit)
  next
    case False
    then show ?thesis
      using "1.IH" by (simp add: str_of_nat.simps [of n] nat_of_str_append of_char_digit)
  qed
qed

lemma str_of_nat_inject [simp]: "str_of_nat m = str_of_nat n \<longleftrightarrow> m = n"
  by (metis nat_of_str_of_nat)

lemma str_of_nat_digits: "c \<in> set (str_of_nat n) \<Longrightarrow> \<exists>d<10. c = digit_char d"
proof (induction n rule: str_of_nat.induct)
  case (1 n)
  show ?case
  proof (cases "n < 10")
    case True
    with "1.prems" show ?thesis by (auto simp: str_of_nat.simps [of n])
  next
    case False
    with "1.prems" consider "c \<in> set (str_of_nat (n div 10))" | "c = digit_char (n mod 10)"
      by (auto simp: str_of_nat.simps [of n])
    then show ?thesis
    proof cases
      case 1
      with False "1.IH" show ?thesis by blast
    next
      case 2
      then show ?thesis by (intro exI [of _ "n mod 10"]) simp
    qed
  qed
qed

lemma digit_char_neq: "d < 10 \<Longrightarrow> digit_char d \<noteq> CHR ''-''" "d < 10 \<Longrightarrow> digit_char d \<noteq> CHR '':''"
  by (auto dest!: arg_cong [where f = "of_char :: char \<Rightarrow> nat"] simp: of_char_digit)

lemma str_of_nat_no_minus: "CHR ''-'' \<notin> set (str_of_nat n)"
  using str_of_nat_digits digit_char_neq(1) by metis

lemma str_of_int_inject [simp]: "str_of_int i = str_of_int j \<longleftrightarrow> i = j"
proof -
  have h: "str_of_nat m \<noteq> CHR ''-'' # s" for m s
    using str_of_nat_no_minus [of m] by auto
  show ?thesis
    using h h [symmetric] by (auto simp: str_of_int_def)
qed

end
