(* ===== verification/Environment.thy ===== *)
theory Environment
  imports Prelude
begin

text \<open>
  What the connectors call and do not own: the KV store (the native pipeline behind
  \<open>UcmKVStoreBaseV1\<close>, src/ucm/store/ucmstore_v1.py), the accelerator runtime behind
  \<open>Device\<close>, the metrics sink and the clock. They are parameters: a \<open>world\<close> answers each
  call as a function of everything that happened before, so an answer may change from call
  to call and may be an exception, and every call is recorded in the trace. Theorems about
  a connector hold for every world, or name the documented behaviour they rely on.
\<close>

section \<open>Calls and their trace\<close>

type_synonym store_ref = nat
type_synonym task = nat

datatype event =
    LookupOnPrefix store_ref "bytes list" "int res"
  | LookupOnReverse store_ref "bytes list" "int res"
  | Lookup store_ref "bytes list" "bool list res"
  | Prefetch store_ref "bytes list" "unit res"
  | LoadData store_ref "bytes list" "int list" "u64 list list" "bool option" "task res"
  | DumpData store_ref "bytes list" "int list" "u64 list list" int "task res"
  | WaitTask store_ref task "unit res"
  | CheckTask store_ref task "bool res"
  | CudaRecordEvent "int res"
  | AclCreateEvent "(int \<times> int) res"
  | AclRecordEvent int "int res"
  | AclDestroyEvent int
  | Synchronize "unit res"
  | UpdateStats "(string \<times> real) list"
  | PerfCounter

type_synonym trace = "event list"

record world =
  w_lookup_on_prefix :: "trace \<Rightarrow> store_ref \<Rightarrow> bytes list \<Rightarrow> int res"
  w_lookup_on_reverse :: "trace \<Rightarrow> store_ref \<Rightarrow> bytes list \<Rightarrow> int res"
  w_lookup :: "trace \<Rightarrow> store_ref \<Rightarrow> bytes list \<Rightarrow> bool list res"
  w_prefetch :: "trace \<Rightarrow> store_ref \<Rightarrow> bytes list \<Rightarrow> unit res"
  w_load_data :: "trace \<Rightarrow> store_ref \<Rightarrow> bytes list \<Rightarrow> int list \<Rightarrow> u64 list list \<Rightarrow> bool option \<Rightarrow> task res"
  w_dump_data :: "trace \<Rightarrow> store_ref \<Rightarrow> bytes list \<Rightarrow> int list \<Rightarrow> u64 list list \<Rightarrow> int \<Rightarrow> task res"
  w_wait :: "trace \<Rightarrow> store_ref \<Rightarrow> task \<Rightarrow> unit res"
  w_check :: "trace \<Rightarrow> store_ref \<Rightarrow> task \<Rightarrow> bool res"
  w_supports_distributed :: "store_ref \<Rightarrow> bool"
  w_cuda_record :: "trace \<Rightarrow> int res"
  w_acl_create :: "trace \<Rightarrow> (int \<times> int) res"
  w_acl_record :: "trace \<Rightarrow> int \<Rightarrow> int res"
  w_synchronize :: "trace \<Rightarrow> unit res"
  w_clock :: "trace \<Rightarrow> real"

text \<open>
  One function per abstract method of \<open>UcmKVStoreBaseV1\<close> that the connectors call: the
  world's answer and the extended trace.
\<close>

definition store_lookup_on_prefix :: "world \<Rightarrow> store_ref \<Rightarrow> bytes list \<Rightarrow> trace \<Rightarrow> int res \<times> trace" where
  "store_lookup_on_prefix W s ids t =
     (let r = w_lookup_on_prefix W t s ids in (r, t @ [LookupOnPrefix s ids r]))"

definition store_lookup_on_reverse :: "world \<Rightarrow> store_ref \<Rightarrow> bytes list \<Rightarrow> trace \<Rightarrow> int res \<times> trace" where
  "store_lookup_on_reverse W s ids t =
     (let r = w_lookup_on_reverse W t s ids in (r, t @ [LookupOnReverse s ids r]))"

definition store_lookup :: "world \<Rightarrow> store_ref \<Rightarrow> bytes list \<Rightarrow> trace \<Rightarrow> bool list res \<times> trace" where
  "store_lookup W s ids t =
     (let r = w_lookup W t s ids in (r, t @ [Lookup s ids r]))"

definition store_prefetch :: "world \<Rightarrow> store_ref \<Rightarrow> bytes list \<Rightarrow> trace \<Rightarrow> unit res \<times> trace" where
  "store_prefetch W s ids t =
     (let r = w_prefetch W t s ids in (r, t @ [Prefetch s ids r]))"

definition store_load_data ::
  "world \<Rightarrow> store_ref \<Rightarrow> bytes list \<Rightarrow> int list \<Rightarrow> u64 list list \<Rightarrow> bool option \<Rightarrow> trace \<Rightarrow> task res \<times> trace" where
  "store_load_data W s ids shards ptrs dopt t =
     (let r = w_load_data W t s ids shards ptrs dopt in (r, t @ [LoadData s ids shards ptrs dopt r]))"

definition store_dump_data ::
  "world \<Rightarrow> store_ref \<Rightarrow> bytes list \<Rightarrow> int list \<Rightarrow> u64 list list \<Rightarrow> int \<Rightarrow> trace \<Rightarrow> task res \<times> trace" where
  "store_dump_data W s ids shards ptrs handle t =
     (let r = w_dump_data W t s ids shards ptrs handle in (r, t @ [DumpData s ids shards ptrs handle r]))"

definition store_wait :: "world \<Rightarrow> store_ref \<Rightarrow> task \<Rightarrow> trace \<Rightarrow> unit res \<times> trace" where
  "store_wait W s tk t =
     (let r = w_wait W t s tk in (r, t @ [WaitTask s tk r]))"

definition store_check :: "world \<Rightarrow> store_ref \<Rightarrow> task \<Rightarrow> trace \<Rightarrow> bool res \<times> trace" where
  "store_check W s tk t =
     (let r = w_check W t s tk in (r, t @ [CheckTask s tk r]))"

definition update_stats :: "(string \<times> real) list \<Rightarrow> trace \<Rightarrow> trace" where
  "update_stats stats t = t @ [UpdateStats stats]"

definition perf_counter_ms :: "world \<Rightarrow> trace \<Rightarrow> real \<times> trace" where
  "perf_counter_ms W t = (w_clock W t * 1000, t @ [PerfCounter])"

section \<open>Documented store behaviour\<close>

text \<open>
  The contract of the lookups, from the interface's docstrings: a prefix lookup scans from
  index 0 and returns the index of the last contiguous block present (\<open>-1\<close> if none), a
  reverse lookup scans from the last index down and returns the rightmost block present
  (\<open>-1\<close> if none), an exact lookup answers per block. These three functions are the
  contract as functions of a presence predicate.
\<close>

definition lookup_on_prefix_doc :: "(bytes \<Rightarrow> bool) \<Rightarrow> bytes list \<Rightarrow> int" where
  "lookup_on_prefix_doc present ids = int (length (takeWhile present ids)) - 1"

definition lookup_on_reverse_doc :: "(bytes \<Rightarrow> bool) \<Rightarrow> bytes list \<Rightarrow> int" where
  "lookup_on_reverse_doc present ids =
     int (length (dropWhile (\<lambda>b. \<not> present b) (rev ids))) - 1"

definition lookup_doc :: "(bytes \<Rightarrow> bool) \<Rightarrow> bytes list \<Rightarrow> bool list" where
  "lookup_doc present ids = map present ids"

definition store_as_documented :: "world \<Rightarrow> store_ref \<Rightarrow> (bytes \<Rightarrow> bool) \<Rightarrow> bool" where
  "store_as_documented W s present \<longleftrightarrow>
     (\<forall>t ids. w_lookup_on_prefix W t s ids = Inr (lookup_on_prefix_doc present ids)) \<and>
     (\<forall>t ids. w_lookup_on_reverse W t s ids = Inr (lookup_on_reverse_doc present ids)) \<and>
     (\<forall>t ids. w_lookup W t s ids = Inr (lookup_doc present ids))"

text \<open>
  A task is a Python object and the connectors key their books by \<open>id(task)\<close>, which no two
  live objects share. The handles live after a trace are those a submission returned and no
  wait (or failed poll) has consumed; a new submission returns none of them.
\<close>

fun live_after :: "event \<Rightarrow> task set \<Rightarrow> task set" where
  "live_after (LoadData s ids sh ptrs d (Inr tk)) L = insert tk L"
| "live_after (DumpData s ids sh ptrs h (Inr tk)) L = insert tk L"
| "live_after (WaitTask s tk r) L = L - {tk}"
| "live_after (CheckTask s tk (Inl e)) L = L - {tk}"
| "live_after ev L = L"

definition live_tasks :: "trace \<Rightarrow> task set" where
  "live_tasks t = fold live_after t {}"

definition fresh_handles :: "world \<Rightarrow> bool" where
  "fresh_handles W \<longleftrightarrow>
     (\<forall>t s ids sh ptrs d tk. w_load_data W t s ids sh ptrs d = Inr tk \<longrightarrow> tk \<notin> live_tasks t) \<and>
     (\<forall>t s ids sh ptrs h tk. w_dump_data W t s ids sh ptrs h = Inr tk \<longrightarrow> tk \<notin> live_tasks t)"

section \<open>A scripted world\<close>

text \<open>
  A concrete world for evaluation: the store holds the blocks of a list, every transfer
  succeeds, and a new handle is above every handle returned so far.
\<close>

fun handle_of :: "event \<Rightarrow> nat" where
  "handle_of (LoadData s ids sh ptrs d (Inr tk)) = Suc tk"
| "handle_of (DumpData s ids sh ptrs h (Inr tk)) = Suc tk"
| "handle_of ev = 0"

definition next_handle :: "trace \<Rightarrow> nat" where
  "next_handle t = fold (\<lambda>ev. max (handle_of ev)) t 0"

definition script_world :: "bytes list \<Rightarrow> world" where
  "script_world held =
     \<lparr> w_lookup_on_prefix = (\<lambda>t s ids. Inr (lookup_on_prefix_doc (\<lambda>b. b \<in> set held) ids)),
       w_lookup_on_reverse = (\<lambda>t s ids. Inr (lookup_on_reverse_doc (\<lambda>b. b \<in> set held) ids)),
       w_lookup = (\<lambda>t s ids. Inr (lookup_doc (\<lambda>b. b \<in> set held) ids)),
       w_prefetch = (\<lambda>t s ids. Inr ()),
       w_load_data = (\<lambda>t s ids sh ptrs d. Inr (next_handle t)),
       w_dump_data = (\<lambda>t s ids sh ptrs h. Inr (next_handle t)),
       w_wait = (\<lambda>t s tk. Inr ()),
       w_check = (\<lambda>t s tk. Inr True),
       w_supports_distributed = (\<lambda>s. True),
       w_cuda_record = (\<lambda>t. Inr (int (length t) + 1)),
       w_acl_create = (\<lambda>t. Inr (int (length t) + 1, 0)),
       w_acl_record = (\<lambda>t h. Inr 0),
       w_synchronize = (\<lambda>t. Inr ()),
       w_clock = (\<lambda>t. real (length t)) \<rparr>"

section \<open>Facts\<close>

lemmas store_calls =
  store_lookup_on_prefix_def store_lookup_on_reverse_def store_lookup_def store_prefetch_def
  store_load_data_def store_dump_data_def store_wait_def store_check_def update_stats_def
  perf_counter_ms_def

lemma prefix_doc_bounds:
  "- 1 \<le> lookup_on_prefix_doc p ids" "lookup_on_prefix_doc p ids < int (length ids)"
  using length_takeWhile_le [of p ids] by (simp_all add: lookup_on_prefix_doc_def)

lemma prefix_doc_present:
  "i < nat (lookup_on_prefix_doc p ids + 1) \<Longrightarrow> p (ids ! i)"
  by (simp add: lookup_on_prefix_doc_def) (metis nth_mem set_takeWhileD takeWhile_nth)

lemma prefix_doc_stop:
  "lookup_on_prefix_doc p ids + 1 < int (length ids) \<Longrightarrow>
   \<not> p (ids ! nat (lookup_on_prefix_doc p ids + 1))"
  by (simp add: lookup_on_prefix_doc_def nth_length_takeWhile)

lemma reverse_doc_snoc:
  "lookup_on_reverse_doc p (ids @ [b]) = (if p b then int (length ids) else lookup_on_reverse_doc p ids)"
  by (simp add: lookup_on_reverse_doc_def)

lemma reverse_doc_Nil [simp]: "lookup_on_reverse_doc p [] = - 1"
  by (simp add: lookup_on_reverse_doc_def)

lemma reverse_doc_bounds:
  "- 1 \<le> lookup_on_reverse_doc p ids \<and> lookup_on_reverse_doc p ids < int (length ids)"
  by (induction ids rule: rev_induct) (auto simp: reverse_doc_snoc)

text \<open>The result of a reverse lookup: the greatest index whose block is present.\<close>

lemma reverse_doc_eq_iff:
  "lookup_on_reverse_doc p ids = int i \<longleftrightarrow>
   i < length ids \<and> p (ids ! i) \<and> (\<forall>j. i < j \<longrightarrow> j < length ids \<longrightarrow> \<not> p (ids ! j))"
proof (induction ids rule: rev_induct)
  case (snoc b ids)
  show ?case
  proof (cases "p b")
    case True
    have "i = length ids" if "i < Suc (length ids)" "\<forall>j. i < j \<longrightarrow> j < Suc (length ids) \<longrightarrow> \<not> p ((ids @ [b]) ! j)"
      using that(1) that(2) [rule_format, of "length ids"] True by (cases "i < length ids") simp_all
    with True show ?thesis
      by (simp add: reverse_doc_snoc) (metis less_Suc_eq not_less_iff_gr_or_eq nth_append_length)
  next
    case False
    then have "(\<forall>j. i < j \<longrightarrow> j < Suc (length ids) \<longrightarrow> \<not> p ((ids @ [b]) ! j)) \<longleftrightarrow>
      (\<forall>j. i < j \<longrightarrow> j < length ids \<longrightarrow> \<not> p (ids ! j))"
      by (auto simp: nth_append less_Suc_eq)
    with False snoc show ?thesis
      by (simp add: reverse_doc_snoc) (metis less_Suc_eq nth_append nth_append_length)
  qed
qed simp

lemma reverse_doc_none_iff:
  "lookup_on_reverse_doc p ids = - 1 \<longleftrightarrow> (\<forall>b \<in> set ids. \<not> p b)"
  by (induction ids rule: rev_induct) (auto simp: reverse_doc_snoc)

lemma live_tasks_Nil [simp]: "live_tasks [] = {}"
  by (simp add: live_tasks_def)

lemma live_tasks_snoc [simp]: "live_tasks (t @ [ev]) = live_after ev (live_tasks t)"
  by (simp add: live_tasks_def)

lemma live_below_next_handle: "live_tasks t \<subseteq> {..<next_handle t}"
proof (induction t rule: rev_induct)
  case (snoc ev t)
  then show ?case
    by (cases "(ev, live_tasks t)" rule: live_after.cases) (auto simp: next_handle_def)
qed simp

lemma script_world_fresh: "fresh_handles (script_world held)"
  using live_below_next_handle by (auto simp: fresh_handles_def script_world_def)

lemma script_world_documented: "store_as_documented (script_world held) s (\<lambda>b. b \<in> set held)"
  by (simp add: store_as_documented_def script_world_def)

end
