(* ===== verification/Device.thy ===== *)
theory Device
  imports Environment "HOL-Library.Multiset"
begin

text \<open>
  src/ucm/integration/vllm/device.py: the event handles that order a device-to-host copy
  after the compute stream (CUDA and Ascend NPU), and the CPU-affinity arithmetic: slicing
  the allowed cores among the local ranks, printing a core list as ranges, and splitting
  such a list between the worker and the store. The runtime calls (torch events, ACL) are
  answers of the \<open>world\<close>; the topology probing through sysfs and \<open>npu-smi\<close> is not modelled.
\<close>

section \<open>Event handles\<close>

datatype device_kind = CudaDevice | NpuDevice

text \<open>
  \<open>Device.events\<close> maps a handle to its event object; the objects are opaque, and the set of
  keys is what the operations decide on.
\<close>

record device =
  dev_kind :: device_kind
  dev_events :: "int set"

definition init_device :: "device_kind \<Rightarrow> device" where
  "init_device k = \<lparr> dev_kind = k, dev_events = {} \<rparr>"

definition cuda_get_event_handle :: "world \<Rightarrow> device \<Rightarrow> trace \<Rightarrow> int \<times> device \<times> trace" where
  "cuda_get_event_handle W d t =
     (let r = w_cuda_record W t; t = t @ [CudaRecordEvent r]
      in case r of
           Inl _ \<Rightarrow> (0, d, t)
         | Inr handle \<Rightarrow> (handle, d\<lparr>dev_events := insert handle (dev_events d)\<rparr>, t))"

definition npu_get_event_handle :: "world \<Rightarrow> device \<Rightarrow> trace \<Rightarrow> int \<times> device \<times> trace" where
  "npu_get_event_handle W d t =
     (let r = w_acl_create W t; t = t @ [AclCreateEvent r]
      in case r of
           Inl _ \<Rightarrow> (0, d, t)
         | Inr (event, ret) \<Rightarrow>
             if ret \<noteq> 0 then (0, d, t)
             else
               let r = w_acl_record W t event; t = t @ [AclRecordEvent event r]
               in case r of
                    Inl _ \<Rightarrow> (0, d, t)
                  | Inr ret \<Rightarrow>
                      if ret \<noteq> 0 then (0, d, t @ [AclDestroyEvent event])
                      else (event, d\<lparr>dev_events := insert event (dev_events d)\<rparr>, t))"

definition get_event_handle :: "world \<Rightarrow> device \<Rightarrow> trace \<Rightarrow> int \<times> device \<times> trace" where
  "get_event_handle W d t =
     (case dev_kind d of
        CudaDevice \<Rightarrow> cuda_get_event_handle W d t
      | NpuDevice \<Rightarrow> npu_get_event_handle W d t)"

definition destroy_event_handle :: "device \<Rightarrow> int \<Rightarrow> trace \<Rightarrow> device \<times> trace" where
  "destroy_event_handle d event_handle t =
     (case dev_kind d of
        CudaDevice \<Rightarrow> (d\<lparr>dev_events := dev_events d - {event_handle}\<rparr>, t)
      | NpuDevice \<Rightarrow>
          if event_handle \<in> dev_events d
          then (d\<lparr>dev_events := dev_events d - {event_handle}\<rparr>, t @ [AclDestroyEvent event_handle])
          else (d, t))"

definition synchronize :: "world \<Rightarrow> trace \<Rightarrow> unit res \<times> trace" where
  "synchronize W t = (let r = w_synchronize W t in (r, t @ [Synchronize r]))"

section \<open>Text\<close>

definition is_space :: "char \<Rightarrow> bool" where
  "is_space c = (let n = (of_char c :: nat) in (9 \<le> n \<and> n \<le> 13) \<or> (28 \<le> n \<and> n \<le> 32))"

definition strip :: "string \<Rightarrow> string" where
  "strip s = rev (dropWhile is_space (rev (dropWhile is_space s)))"

text \<open>\<open>s.split(sep)\<close> for a one-character separator.\<close>

fun split_on :: "char \<Rightarrow> string \<Rightarrow> string list" where
  "split_on sep [] = [[]]"
| "split_on sep (c # cs) =
     (if c = sep then [] # split_on sep cs
      else case split_on sep cs of [] \<Rightarrow> [[c]] | w # ws \<Rightarrow> (c # w) # ws)"

text \<open>\<open>sep.join(parts)\<close>\<close>

fun join_with :: "char \<Rightarrow> string list \<Rightarrow> string" where
  "join_with sep [] = []"
| "join_with sep [w] = w"
| "join_with sep (w # v # ws) = w @ sep # join_with sep (v # ws)"

definition is_digit :: "char \<Rightarrow> bool" where
  "is_digit c = (48 \<le> (of_char c :: nat) \<and> (of_char c :: nat) \<le> 57)"

text \<open>\<open>int(s)\<close>: blanks around, a sign, digits with single underscores between them.\<close>

fun valid_digits :: "string \<Rightarrow> bool" where
  "valid_digits [] = False"
| "valid_digits [c] = is_digit c"
| "valid_digits (c # d # cs) =
     (is_digit c \<and> (if d = CHR ''_'' then valid_digits cs else valid_digits (d # cs)))"

definition py_int :: "string \<Rightarrow> int res" where
  "py_int s =
     (let w = strip s;
          neg = (w \<noteq> [] \<and> hd w = CHR ''-'');
          ds = (if w \<noteq> [] \<and> (hd w = CHR ''-'' \<or> hd w = CHR ''+'') then tl w else w)
      in if valid_digits ds
         then let n = int (nat_of_str (filter (\<lambda>c. c \<noteq> CHR ''_'') ds)) in Inr (if neg then - n else n)
         else Inl (ValueError ''invalid literal for int()''))"

section \<open>CPU lists\<close>

text \<open>One element of a CPU list: \<open>a-b\<close> (in either order) or \<open>a\<close>.\<close>

definition parse_segment :: "string \<Rightarrow> int list res" where
  "parse_segment part =
     (if CHR ''-'' \<in> set part
      then let x = takeWhile (\<lambda>c. c \<noteq> CHR ''-'') part;
               y = tl (dropWhile (\<lambda>c. c \<noteq> CHR ''-'') part)
           in bindR (py_int x) (\<lambda>a. bindR (py_int y) (\<lambda>b.
                Inr (if a > b then [b..a] else [a..b])))
      else bindR (py_int part) (\<lambda>a. Inr [a]))"

fun split_parts :: "string list \<Rightarrow> int list \<Rightarrow> int list \<Rightarrow> (int list \<times> int list) res" where
  "split_parts [] worker_cores store_cores = Inr (worker_cores, store_cores)"
| "split_parts (p # parts) worker_cores store_cores =
     (let part = strip p
      in if part = [] then split_parts parts worker_cores store_cores
         else case parse_segment part of
                Inl e \<Rightarrow> Inl e
              | Inr seg \<Rightarrow>
                  let mid = max 1 (length seg div 2)
                  in split_parts parts (worker_cores @ take mid seg) (store_cores @ drop mid seg))"

definition split_cores :: "int list \<Rightarrow> string option \<Rightarrow> int list \<times> int list" where
  "split_cores sched_affinity cpu_affinity =
     (case cpu_affinity of
        None \<Rightarrow> ([], [])
      | Some text_list \<Rightarrow>
          if text_list = [] then ([], [])
          else case split_parts (split_on (CHR '','') text_list) [] [] of
                 Inl _ \<Rightarrow> ([], [])
               | Inr (worker_cores, store_cores) \<Rightarrow>
                   if worker_cores = []
                   then case sched_affinity of
                          [] \<Rightarrow> (worker_cores, store_cores)
                        | c # cores \<Rightarrow> ([c], cores)
                   else (worker_cores, store_cores))"

text \<open>Maximal runs of consecutive cores, and their printing.\<close>

fun core_runs :: "int \<Rightarrow> int \<Rightarrow> int list \<Rightarrow> (int \<times> int) list" where
  "core_runs s e [] = [(s, e)]"
| "core_runs s e (c # cs) = (if c = e + 1 then core_runs s c cs else (s, e) # core_runs c c cs)"

definition print_run :: "int \<times> int \<Rightarrow> string" where
  "print_run r = (case r of (s, e) \<Rightarrow> if s \<noteq> e then str_of_int s @ ''-'' @ str_of_int e else str_of_int s)"

definition cpulist_of_sorted :: "int list \<Rightarrow> string option" where
  "cpulist_of_sorted cores =
     (case cores of
        [] \<Rightarrow> None
      | c # cs \<Rightarrow> Some (join_with (CHR '','') (map print_run (core_runs c c cs))))"

definition to_cpulist_str :: "int list \<Rightarrow> string option" where
  "to_cpulist_str cores = (if cores = [] then None else cpulist_of_sorted (sort (remdups cores)))"

definition visible_count :: "string option \<Rightarrow> int \<Rightarrow> int" where
  "visible_count visible device_count =
     (case visible of
        None \<Rightarrow> device_count
      | Some v \<Rightarrow>
          if v = [] then device_count
          else int (length (filter (\<lambda>x. strip x \<noteq> []) (split_on (CHR '','') v))))"

definition core_slice :: "int list \<Rightarrow> int \<Rightarrow> int \<Rightarrow> int list" where
  "core_slice cores total_devices local_rank =
     (let base = int (length cores) div total_devices;
          extra = int (length cores) mod total_devices;
          start = local_rank * base + min local_rank extra;
          len = base + (if local_rank < extra then 1 else 0)
      in py_slice cores start (start + len))"

definition cuda_fallback_cpu_affinity :: "int list \<Rightarrow> string option \<Rightarrow> int \<Rightarrow> int \<Rightarrow> string option" where
  "cuda_fallback_cpu_affinity cores visible device_count local_rank =
     (if cores = [] then None
      else
        let total_devices = visible_count visible device_count
        in if total_devices \<le> 0 \<or> local_rank < 0 \<or> local_rank \<ge> total_devices then None
           else cpulist_of_sorted (core_slice cores total_devices local_rank))"

definition npu_fallback_cpu_affinity :: "int list \<Rightarrow> int list \<Rightarrow> int \<Rightarrow> int \<Rightarrow> string option" where
  "npu_fallback_cpu_affinity cores visible device_count local_rank =
     (if cores = [] then None
      else
        let total_devices = (if visible \<noteq> [] then int (length visible) else device_count)
        in if total_devices \<le> 0 \<or> local_rank < 0 \<or> local_rank \<ge> total_devices then None
           else
             let sliced = core_slice cores total_devices local_rank
             in if sliced = [] then None else to_cpulist_str sliced)"

section \<open>Event ledger\<close>

text \<open>
  The ACL events alive after a trace, and a use of the device: handles taken and given back.
\<close>

fun acl_alive_after :: "event \<Rightarrow> int set \<Rightarrow> int set" where
  "acl_alive_after (AclCreateEvent (Inr (event, ret))) L = (if ret = 0 then insert event L else L)"
| "acl_alive_after (AclDestroyEvent event) L = L - {event}"
| "acl_alive_after ev L = L"

definition acl_alive :: "trace \<Rightarrow> int set" where
  "acl_alive t = fold acl_alive_after t {}"

datatype device_op = TakeHandle | GiveHandle int

definition device_step :: "world \<Rightarrow> device_op \<Rightarrow> device \<times> trace \<Rightarrow> device \<times> trace" where
  "device_step W op dt =
     (case dt of (d, t) \<Rightarrow>
        (case op of
           TakeHandle \<Rightarrow> snd (get_event_handle W d t)
         | GiveHandle h \<Rightarrow> destroy_event_handle d h t))"

definition acl_as_documented :: "world \<Rightarrow> bool" where
  "acl_as_documented W \<longleftrightarrow>
     (\<forall>t event. w_acl_create W t = Inr (event, 0) \<longrightarrow> event \<notin> acl_alive t) \<and>
     (\<forall>t event. \<not> isl (w_acl_record W t event))"

text \<open>A runtime with a single event, for evaluation.\<close>

definition one_event_world :: world where
  "one_event_world =
     (script_world [])\<lparr>w_acl_create := (\<lambda>t. if acl_alive t = {} then Inr (5, 0) else Inr (0, 1))\<rparr>"

text \<open>Every destruction in the trace was of an event alive at that point.\<close>

fun destroys_alive :: "int set \<Rightarrow> trace \<Rightarrow> bool" where
  "destroys_alive L [] = True"
| "destroys_alive L (ev # t) =
     ((case ev of AclDestroyEvent event \<Rightarrow> event \<in> L | _ \<Rightarrow> True) \<and> destroys_alive (acl_alive_after ev L) t)"

section \<open>Facts about the ledger\<close>

lemma acl_alive_simps [simp]:
  "acl_alive [] = {}" "acl_alive (t @ [ev]) = acl_alive_after ev (acl_alive t)"
  by (simp_all add: acl_alive_def)

lemma destroys_alive_append:
  "destroys_alive L (t @ u) \<longleftrightarrow> destroys_alive L t \<and> destroys_alive (fold acl_alive_after t L) u"
  by (induction t arbitrary: L) simp_all

lemma destroys_alive_snoc:
  "destroys_alive {} (t @ [ev]) \<longleftrightarrow> destroys_alive {} t \<and>
    (case ev of AclDestroyEvent event \<Rightarrow> event \<in> acl_alive t | _ \<Rightarrow> True)"
  by (cases ev) (simp_all add: destroys_alive_append acl_alive_def)

text \<open>The contract of a device: it holds exactly the handles it has given out.\<close>

locale event_source =
  fixes take_handle :: "'d \<Rightarrow> trace \<Rightarrow> int \<times> 'd \<times> trace"
    and give_handle :: "'d \<Rightarrow> int \<Rightarrow> trace \<Rightarrow> 'd \<times> trace"
    and held :: "'d \<Rightarrow> int set"
  assumes take_held: "take_handle d t = (h, d', t') \<Longrightarrow> held d' = held d \<or> held d' = insert h (held d)"
    and take_zero: "take_handle d t = (h, d', t') \<Longrightarrow> h \<noteq> 0 \<Longrightarrow> h \<in> held d'"
    and give_held: "give_handle d h t = (d', t') \<Longrightarrow> held d' = held d - {h}"
begin

lemma take_then_give:
  assumes "take_handle d t = (h, d1, t1)" "h \<notin> held d" "give_handle d1 h t2 = (d2, t3)"
  shows "held d2 = held d"
  using take_held [OF assms(1)] give_held [OF assms(3)] assms(2) by auto

end

interpretation cuda_events: event_source "cuda_get_event_handle W"
  "\<lambda>d h t. (d\<lparr>dev_events := dev_events d - {h}\<rparr>, t)" dev_events for W
  by unfold_locales (auto simp: cuda_get_event_handle_def Let_def split: sum.splits)

interpretation device_events: event_source "get_event_handle W" destroy_event_handle dev_events for W
  by unfold_locales
    (auto simp: get_event_handle_def cuda_get_event_handle_def npu_get_event_handle_def
      destroy_event_handle_def Let_def split: sum.splits device_kind.splits if_splits prod.splits)

lemma dev_kind_frame [frame_simps]:
  "get_event_handle W d t = (h, d', t') \<Longrightarrow> dev_kind d' = dev_kind d"
  by (auto simp: get_event_handle_def cuda_get_event_handle_def npu_get_event_handle_def Let_def
      split: sum.splits device_kind.splits if_splits prod.splits)

text \<open>Taking an NPU handle, by what the runtime answers.\<close>

lemma npu_take_cases:
  assumes "dev_kind d = NpuDevice"
  shows "w_acl_create W t = Inl e \<Longrightarrow> snd (get_event_handle W d t) = (d, t @ [AclCreateEvent (Inl e)])"
    and "w_acl_create W t = Inr (event, ret) \<Longrightarrow> ret \<noteq> 0 \<Longrightarrow>
      snd (get_event_handle W d t) = (d, t @ [AclCreateEvent (Inr (event, ret))])"
    and "w_acl_create W t = Inr (event, 0) \<Longrightarrow>
      w_acl_record W (t @ [AclCreateEvent (Inr (event, 0))]) event = Inr ret2 \<Longrightarrow>
      snd (get_event_handle W d t) =
        (if ret2 \<noteq> 0
         then (d, (t @ [AclCreateEvent (Inr (event, 0))]) @ [AclRecordEvent event (Inr ret2)] @ [AclDestroyEvent event])
         else (d\<lparr>dev_events := insert event (dev_events d)\<rparr>,
               (t @ [AclCreateEvent (Inr (event, 0))]) @ [AclRecordEvent event (Inr ret2)]))"
  using assms by (simp_all add: get_event_handle_def npu_get_event_handle_def Let_def)

lemma npu_take_ledger:
  assumes "acl_as_documented W" "dev_kind d = NpuDevice" "dev_events d = acl_alive t" "destroys_alive {} t"
    and "snd (get_event_handle W d t) = (d', t')"
  shows "dev_kind d' = NpuDevice \<and> dev_events d' = acl_alive t' \<and> destroys_alive {} t'"
proof (cases "w_acl_create W t")
  case (Inl e)
  with npu_take_cases(1) [OF assms(2)] assms show ?thesis by (auto simp: destroys_alive_snoc)
next
  case (Inr p)
  obtain event ret where p: "p = (event, ret)" by (cases p)
  show ?thesis
  proof (cases "ret = 0")
    case True
    with Inr p have create: "w_acl_create W t = Inr (event, 0)" by simp
    then have fresh: "event \<notin> acl_alive t" using assms(1) unfolding acl_as_documented_def by blast
    have "\<not> isl (w_acl_record W (t @ [AclCreateEvent (Inr (event, 0))]) event)"
      using assms(1) unfolding acl_as_documented_def by blast
    then obtain ret2 where rec: "w_acl_record W (t @ [AclCreateEvent (Inr (event, 0))]) event = Inr ret2"
      by (cases "w_acl_record W (t @ [AclCreateEvent (Inr (event, 0))]) event") auto
    note out = npu_take_cases(3) [OF assms(2) create rec]
    show ?thesis
    proof (cases "ret2 = 0")
      case True
      with out assms(5) have "d' = d\<lparr>dev_events := insert event (dev_events d)\<rparr>"
        "t' = (t @ [AclCreateEvent (Inr (event, 0))]) @ [AclRecordEvent event (Inr ret2)]" by simp_all
      with assms(2-4) show ?thesis
        by (simp only: destroys_alive_snoc acl_alive_simps) simp
    next
      case False
      with out assms(5) have "d' = d"
        "t' = ((t @ [AclCreateEvent (Inr (event, 0))]) @ [AclRecordEvent event (Inr ret2)]) @ [AclDestroyEvent event]"
        by simp_all
      with assms(2-4) fresh show ?thesis
        by (simp only: destroys_alive_snoc acl_alive_simps) simp
    qed
  next
    case False
    from npu_take_cases(2) [OF assms(2) Inr [unfolded p] False] assms False show ?thesis
      by (auto simp: destroys_alive_snoc)
  qed
qed

lemma npu_step_ledger:
  assumes "acl_as_documented W" "dev_kind d = NpuDevice" "dev_events d = acl_alive t" "destroys_alive {} t"
    and "device_step W op (d, t) = (d', t')"
  shows "dev_kind d' = NpuDevice \<and> dev_events d' = acl_alive t' \<and> destroys_alive {} t'"
proof (cases op)
  case TakeHandle
  with npu_take_ledger [OF assms(1-4)] assms(5) show ?thesis by (simp add: device_step_def)
next
  case (GiveHandle h)
  with assms(2-5) show ?thesis
    by (auto simp: device_step_def destroy_event_handle_def destroys_alive_snoc split: if_splits)
qed

section \<open>Facts about CPU lists\<close>

lemma slice_start_step:
  fixes base extra :: int
  shows "(r + 1) * base + min (r + 1) extra = r * base + min r extra + (base + (if r < extra then 1 else 0))"
  by (simp add: min_def algebra_simps)

lemma slices_prefix:
  fixes cores :: "int list"
  assumes "0 < ndev" "int n \<le> ndev"
  defines "base \<equiv> int (length cores) div ndev" and "extra \<equiv> int (length cores) mod ndev"
  shows "concat (map (\<lambda>r. core_slice cores ndev (int r)) [0..<n]) = take (nat (int n * base + min (int n) extra)) cores"
  using assms(2)
proof (induction n)
  case (Suc n)
  let ?a = "int n * base + min (int n) extra"
  have nonneg: "0 \<le> base" "0 \<le> extra" using assms(1) by (simp_all add: base_def extra_def pos_imp_zdiv_nonneg_iff)
  then have a: "0 \<le> ?a" by simp
  let ?len = "base + (if int n < extra then 1 else 0)"
  have "core_slice cores ndev (int n) = take (nat (?a + ?len) - nat ?a) (drop (nat ?a) cores)"
    using a nonneg by (simp add: core_slice_def Let_def base_def [symmetric] extra_def [symmetric] py_slice_nonneg)
  moreover have "take (nat ?a) cores @ take (nat (?a + ?len) - nat ?a) (drop (nat ?a) cores) = take (nat (?a + ?len)) cores"
    using a nonneg by (simp add: take_add [symmetric])
  moreover have "int (Suc n) * base + min (int (Suc n)) extra = ?a + ?len"
    using slice_start_step [of "int n" base extra] by (simp add: add.commute)
  ultimately show ?case using Suc by simp
qed (simp add: extra_def assms(1))

lemma core_runs_concat: "s \<le> e \<Longrightarrow> concat (map (\<lambda>(a, b). [a..b]) (core_runs s e cs)) = [s..e] @ cs"
proof (induction s e cs rule: core_runs.induct)
  case (2 s e c cs)
  have "[s..e + 1] = [s..e] @ [e + 1]" using "2.prems" by (simp add: upto_rec2)
  with 2 show ?case by auto
qed simp

lemma core_runs_nonempty: "core_runs s e cs \<noteq> []"
  by (induction s e cs rule: core_runs.induct) auto

lemma core_runs_ordered:
  "s \<le> e \<Longrightarrow> 0 \<le> s \<Longrightarrow> \<forall>c \<in> set cs. 0 \<le> c \<Longrightarrow> (a, b) \<in> set (core_runs s e cs) \<Longrightarrow> 0 \<le> a \<and> a \<le> b"
  by (induction s e cs rule: core_runs.induct) (auto split: if_splits)

lemma split_join:
  "ws \<noteq> [] \<Longrightarrow> \<forall>w \<in> set ws. sep \<notin> set w \<Longrightarrow> split_on sep (join_with sep ws) = ws"
proof (induction sep ws rule: join_with.induct)
  case (2 sep w)
  have "sep \<notin> set w \<Longrightarrow> split_on sep w = [w]" by (induction w) auto
  with 2 show ?case by simp
next
  case (3 sep w v ws)
  have "sep \<notin> set w \<Longrightarrow> split_on sep (w @ sep # u) = w # split_on sep u" for u by (induction w) auto
  with 3 show ?case by simp
qed simp

lemma digit_char_props:
  assumes "d < 10"
  shows "is_digit (digit_char d) \<and> \<not> is_space (digit_char d) \<and>
    digit_char d \<notin> {CHR ''_'', CHR ''-'', CHR ''+'', CHR '',''}"
proof -
  have n: "(of_char (digit_char d) :: nat) = 48 + d" using assms by (simp add: of_char_digit)
  have "digit_char d \<noteq> c" if "(of_char c :: nat) < 48 \<or> 57 < (of_char c :: nat)" for c
    using n that assms by auto
  with n assms show ?thesis by (simp add: is_digit_def is_space_def Let_def)
qed

lemma str_of_nat_chars:
  "c \<in> set (str_of_nat n) \<Longrightarrow> is_digit c \<and> \<not> is_space c \<and> c \<notin> {CHR ''_'', CHR ''-'', CHR ''+'', CHR '',''}"
proof -
  assume "c \<in> set (str_of_nat n)"
  then obtain d where "d < 10" "c = digit_char d" using str_of_nat_digits by blast
  with digit_char_props [of d] show ?thesis by simp
qed

lemma str_of_nat_nonempty: "str_of_nat n \<noteq> []"
  by (subst str_of_nat.simps) simp

lemma strip_no_space: "\<forall>c \<in> set w. \<not> is_space c \<Longrightarrow> strip w = w"
proof -
  have drop: "\<forall>c \<in> set v. \<not> is_space c \<Longrightarrow> dropWhile is_space v = v" for v by (cases v) auto
  assume "\<forall>c \<in> set w. \<not> is_space c"
  then show ?thesis by (simp add: strip_def drop)
qed

lemma valid_digits_all: "w \<noteq> [] \<Longrightarrow> \<forall>c \<in> set w. is_digit c \<and> c \<noteq> CHR ''_'' \<Longrightarrow> valid_digits w"
  by (induction w rule: valid_digits.induct) auto

lemma py_int_str_of_nat: "py_int (str_of_nat n) = Inr (int n)"
proof -
  let ?w = "str_of_nat n"
  have chars: "\<forall>c \<in> set ?w. is_digit c \<and> \<not> is_space c \<and> c \<notin> {CHR ''_'', CHR ''-'', CHR ''+''}"
    using str_of_nat_chars by blast
  have "hd ?w \<in> set ?w" using str_of_nat_nonempty by simp
  with chars have "hd ?w \<noteq> CHR ''-''" "hd ?w \<noteq> CHR ''+''" by blast+
  moreover have "strip ?w = ?w" using chars by (intro strip_no_space) blast
  moreover have "valid_digits ?w" using chars str_of_nat_nonempty by (intro valid_digits_all) auto
  moreover have "filter (\<lambda>c. c \<noteq> CHR ''_'') ?w = ?w" using chars by (intro filter_True) blast
  ultimately show ?thesis by (simp add: py_int_def Let_def nat_of_str_of_nat)
qed

lemma parse_print_run:
  assumes "0 \<le> a" "a \<le> b"
  shows "parse_segment (print_run (a, b)) = Inr [a..b]"
proof -
  have a: "str_of_int a = str_of_nat (nat a)" and b: "str_of_int b = str_of_nat (nat b)"
    using assms by (simp_all add: str_of_int_def)
  have no: "CHR ''-'' \<notin> set (str_of_nat n)" for n by (rule str_of_nat_no_minus)
  show ?thesis
  proof (cases "a = b")
    case True
    with a no assms show ?thesis by (simp add: print_run_def parse_segment_def py_int_str_of_nat)
  next
    case False
    let ?x = "str_of_nat (nat a)" and ?y = "str_of_nat (nat b)"
    have "takeWhile (\<lambda>c. c \<noteq> CHR ''-'') (?x @ CHR ''-'' # ?y) = ?x"
      "dropWhile (\<lambda>c. c \<noteq> CHR ''-'') (?x @ CHR ''-'' # ?y) = CHR ''-'' # ?y"
      using no [of "nat a"] by (auto simp: takeWhile_append dropWhile_append)
    with False a b assms show ?thesis by (simp add: print_run_def parse_segment_def py_int_str_of_nat)
  qed
qed

lemma print_run_text:
  assumes "0 \<le> a" "a \<le> b"
  shows "strip (print_run (a, b)) = print_run (a, b)" "print_run (a, b) \<noteq> []" "CHR '','' \<notin> set (print_run (a, b))"
proof -
  have chars: "\<not> is_space c \<and> c \<noteq> CHR '',''" if "c \<in> set (print_run (a, b))" for c
    using that assms str_of_nat_chars [of c "nat a"] str_of_nat_chars [of c "nat b"]
    by (auto simp: print_run_def str_of_int_def is_space_def split: if_splits)
  then show "strip (print_run (a, b)) = print_run (a, b)" by (intro strip_no_space) blast
  show "CHR '','' \<notin> set (print_run (a, b))" using chars by blast
  show "print_run (a, b) \<noteq> []" using assms str_of_nat_nonempty by (simp add: print_run_def str_of_int_def)
qed

lemma split_parts_runs:
  assumes "\<forall>(a, b) \<in> set runs. 0 \<le> a \<and> a \<le> b"
  shows "\<exists>w' s'. split_parts (map print_run runs) w s = Inr (w @ w', s @ s') \<and>
    mset (w' @ s') = mset (concat (map (\<lambda>(a, b). [a..b]) runs)) \<and> (runs \<noteq> [] \<longrightarrow> w' \<noteq> [])"
  using assms
proof (induction runs arbitrary: w s)
  case (Cons r runs)
  obtain a b where r: "r = (a, b)" by (cases r)
  with Cons.prems have ab: "0 \<le> a" "a \<le> b" by auto
  let ?seg = "[a..b]"
  let ?mid = "max 1 (length ?seg div 2)"
  obtain w' s' where IH:
    "split_parts (map print_run runs) (w @ take ?mid ?seg) (s @ drop ?mid ?seg) =
       Inr ((w @ take ?mid ?seg) @ w', (s @ drop ?mid ?seg) @ s')"
    "mset (w' @ s') = mset (concat (map (\<lambda>(a, b). [a..b]) runs))"
    using Cons.IH [of "w @ take ?mid ?seg" "s @ drop ?mid ?seg"] Cons.prems by auto
  have "split_parts (map print_run (r # runs)) w s = Inr (w @ (take ?mid ?seg @ w'), s @ (drop ?mid ?seg @ s'))"
    using IH(1) by (simp add: r print_run_text [OF ab] parse_print_run [OF ab] Let_def)
  moreover have "mset (take ?mid ?seg) + mset (drop ?mid ?seg) = mset ?seg"
    by (metis append_take_drop_id mset_append)
  then have "mset ((take ?mid ?seg @ w') @ (drop ?mid ?seg @ s')) = mset (concat (map (\<lambda>(a, b). [a..b]) (r # runs)))"
    using IH(2) by (simp add: r ac_simps)
  moreover have "take ?mid ?seg \<noteq> []" using ab by simp
  ultimately show ?case by blast
qed simp

lemma split_cores_cpulist:
  assumes "cores \<noteq> []" "\<forall>c \<in> set cores. 0 \<le> c" "split_cores aff (cpulist_of_sorted cores) = (w, s)"
  shows "mset (w @ s) = mset cores \<and> w \<noteq> []"
proof -
  obtain c cs where cores: "cores = c # cs" using assms(1) by (cases cores) auto
  let ?runs = "core_runs c c cs"
  have runs: "\<forall>(a, b) \<in> set ?runs. 0 \<le> a \<and> a \<le> b"
    using core_runs_ordered [of c c cs] assms(2) by (auto simp: cores)
  have nonempty: "?runs \<noteq> []" by (rule core_runs_nonempty)
  let ?text = "join_with (CHR '','') (map print_run ?runs)"
  have split: "split_on (CHR '','') ?text = map print_run ?runs"
    using runs nonempty print_run_text(3) by (intro split_join) auto
  have "?text \<noteq> []"
  proof
    assume "?text = []"
    with split have one: "map print_run ?runs = [[]]" by simp
    then obtain a b where "?runs = [(a, b)]" by (cases ?runs) auto
    with one runs print_run_text(2) [of a b] show False by simp
  qed
  obtain w' s' where parts: "split_parts (map print_run ?runs) [] [] = Inr (w', s')"
    "mset (w' @ s') = mset (concat (map (\<lambda>(a, b). [a..b]) ?runs))" "w' \<noteq> []"
    using split_parts_runs [OF runs, of "[]" "[]"] nonempty by auto
  have "w = w'" "s = s'"
    using assms(3) \<open>?text \<noteq> []\<close> parts(1,3) by (simp_all add: split_cores_def cpulist_of_sorted_def cores split)
  with parts core_runs_concat [of c c cs] show ?thesis by (simp add: cores)
qed

section \<open>Properties\<close>

text \<open>
  C18: on an NPU no event leaks and none is destroyed twice. After any sequence of handles
  taken and given back (whatever handles are given back), the ACL events alive are exactly
  those the device holds, and every destruction was of an event alive at that point,
  provided ACL creates fresh events and recording reports failure by its return code.
\<close>

theorem npu_events_balanced:
  assumes "acl_as_documented W"
    and "fold (device_step W) ops (init_device NpuDevice, []) = (d, t)"
  shows "acl_alive t = dev_events d \<and> destroys_alive {} t"
proof -
  have "dev_kind d' = NpuDevice \<and> dev_events d' = acl_alive t' \<and> destroys_alive {} t'"
    if "fold (device_step W) ops (d, t) = (d', t')" "dev_kind d = NpuDevice" "dev_events d = acl_alive t"
      "destroys_alive {} t" for d t d' t'
    using that
  proof (induction ops arbitrary: d t)
    case (Cons op ops)
    obtain d1 t1 where step: "device_step W op (d, t) = (d1, t1)" by (cases "device_step W op (d, t)")
    from npu_step_ledger [OF assms(1) Cons.prems(2-4) step] Cons.IH [of d1 t1] Cons.prems(1) step
    show ?case by simp
  qed simp
  from this [OF assms(2)] show ?thesis by (simp add: init_device_def)
qed

lemma one_event_world_documented: "acl_as_documented one_event_world"
  unfolding acl_as_documented_def one_event_world_def script_world_def
  by (auto split: if_splits)

lemma npu_events_balanced_witness:
  "\<exists>d t. acl_as_documented one_event_world \<and>
     fold (device_step one_event_world) [TakeHandle, GiveHandle 7, TakeHandle] (init_device NpuDevice, []) = (d, t) \<and>
     acl_alive t = dev_events d \<and> destroys_alive {} t"
proof -
  obtain d t where run: "fold (device_step one_event_world) [TakeHandle, GiveHandle 7, TakeHandle] (init_device NpuDevice, []) = (d, t)"
    by (rule prod.exhaust)
  show ?thesis
    by (rule exI [of _ d], rule exI [of _ t])
      (intro conjI one_event_world_documented run
        conjunct1 [OF npu_events_balanced [OF one_event_world_documented run]]
        conjunct2 [OF npu_events_balanced [OF one_event_world_documented run]])
qed

text \<open>
  C19: the fallback affinity gives every allowed core to exactly one local rank: the slices
  of ranks \<open>0\<close>, \<open>1\<close>, and so on, concatenated, are the list of allowed cores, for any number
  of devices, and any two slices differ in length by at most one.
\<close>

theorem core_slices_partition:
  assumes "0 < ndev"
  shows "concat (map (\<lambda>r. core_slice cores (int ndev) (int r)) [0..<ndev]) = cores \<and>
    (\<forall>r < ndev. length (core_slice cores (int ndev) (int r)) \<in> {length cores div ndev, length cores div ndev + 1})"
proof
  let ?n = "int ndev" and ?L = "int (length cores)"
  have "?n * (?L div ?n) + min ?n (?L mod ?n) = ?L"
    using assms by (simp add: min_absorb2 less_imp_le)
  with slices_prefix [of ?n ndev cores] assms
  show "concat (map (\<lambda>r. core_slice cores ?n (int r)) [0..<ndev]) = cores" by simp
  show "\<forall>r < ndev. length (core_slice cores ?n (int r)) \<in> {length cores div ndev, length cores div ndev + 1}"
  proof (intro allI impI)
    fix r assume "r < ndev"
    let ?base = "?L div ?n" and ?extra = "?L mod ?n"
    let ?a = "int r * ?base + min (int r) ?extra" and ?len = "?base + (if int r < ?extra then 1 else 0)"
    have nonneg: "0 \<le> ?base" "0 \<le> ?extra" using assms by (simp_all add: pos_imp_zdiv_nonneg_iff)
    have "?a + ?len = (int r + 1) * ?base + min (int r + 1) ?extra" using slice_start_step [of "int r" ?base ?extra] by simp
    also have "\<dots> \<le> ?n * ?base + ?extra"
      using \<open>r < ndev\<close> nonneg by (intro add_mono mult_right_mono) simp_all
    also have "\<dots> = ?L" by simp
    finally have "int (length (core_slice cores ?n (int r))) = ?len"
      using nonneg by (simp add: core_slice_def Let_def length_py_slice del: of_nat_add)
    then show "length (core_slice cores ?n (int r)) \<in> {length cores div ndev, length cores div ndev + 1}"
      unfolding zdiv_int [symmetric] by (cases "int r < ?extra") auto
  qed
qed

lemma core_slices_partition_witness:
  "concat (map (\<lambda>r. core_slice [0, 1, 2, 3, 8, 9, 10] (int 3) (int r)) [0..<3]) = [0, 1, 2, 3, 8, 9, 10]"
  using core_slices_partition [of 3 "[0, 1, 2, 3, 8, 9, 10]"] by simp

text \<open>
  C20: printing a core list and splitting it loses and duplicates nothing: for sorted
  distinct cores, splitting the text the fallback prints assigns every core to the worker or
  to the store, none to both, and the worker gets at least one.
\<close>

theorem cpulist_split_round_trip:
  assumes "cores \<noteq> []" "sorted cores" "distinct cores" "\<forall>c \<in> set cores. 0 \<le> c"
    and "split_cores aff (to_cpulist_str cores) = (w, s)"
  shows "set w \<union> set s = set cores \<and> set w \<inter> set s = {} \<and> distinct w \<and> distinct s \<and> w \<noteq> []"
proof -
  have "to_cpulist_str cores = cpulist_of_sorted cores"
    using assms(1-3) by (simp add: to_cpulist_str_def distinct_remdups_id sorted_sort_id)
  with split_cores_cpulist [OF assms(1,4)] assms(5) have "mset (w @ s) = mset cores" and "w \<noteq> []" by simp_all
  moreover from this(1) have "set (w @ s) = set cores" "distinct (w @ s)"
    using mset_eq_setD mset_eq_imp_distinct_iff [of "w @ s" cores] assms(3) by metis+
  ultimately show ?thesis by auto
qed

lemma cpulist_split_round_trip_witness:
  "\<exists>w s. split_cores [] (to_cpulist_str [0, 1, 2, 3, 8]) = (w, s) \<and> set w \<union> set s = {0, 1, 2, 3, 8}"
proof -
  obtain w s where run: "split_cores [] (to_cpulist_str [0, 1, 2, 3, 8]) = (w, s)" by (metis prod.exhaust)
  from cpulist_split_round_trip [OF _ _ _ _ run] have "set w \<union> set s = {0, 1, 2, 3, 8}" by simp
  with run show ?thesis by blast
qed

end
