(* ===== verification/Vllm_Config.thy ===== *)
theory Vllm_Config
  imports Prelude
begin

text \<open>
  The parts of vLLM's \<open>VllmConfig\<close> that the connectors read, as one record: an attribute
  the code reads with \<open>getattr\<close> and a default is an option. With them, the module-level
  helpers of ucm_connector.py that read only the configuration: the cache-quantization
  flags, the model-family tests and the namespace string of block hashes.
\<close>

section \<open>Configuration values\<close>

text \<open>
  A Hugging Face configuration object: \<open>indexer_types\<close> is a list when the attribute is a
  list or tuple, and an item of it is \<open>Some\<close> when it is a string.
\<close>

record hf_config =
  indexer_types :: "string option list option"
  model_type :: string

record vllm_config =
  cfg_model :: string
  cfg_dtype :: string
  cfg_tensor_parallel_size :: int
  cfg_decode_context_parallel_size :: "int option"
  cfg_speculative :: "(string option \<times> int option) option"
  cfg_cache_dtype :: "string option"
  cfg_indexer_kv_dtype :: "string option"
  cfg_enable_sparse_sfa_c8 :: bool
  cfg_enable_sparse_li_c8 :: bool
  cfg_hf_text_config :: "hf_config option"
  cfg_hf_config :: "hf_config option"
  cfg_hf_config_text_config :: "hf_config option"

definition lower_char :: "char \<Rightarrow> char" where
  "lower_char c = (if 65 \<le> (of_char c :: nat) \<and> (of_char c :: nat) \<le> 90 then char_of (of_char c + 32 :: nat) else c)"

definition lower :: "string \<Rightarrow> string" where
  "lower s = map lower_char s"

section \<open>Configuration helpers\<close>

definition get_sparse_c8_flags :: "vllm_config \<Rightarrow> bool \<times> bool" where
  "get_sparse_c8_flags cfg =
     (let quantized = (\<lambda>d. d = Some ''int8'' \<or> d = Some ''fp8'')
      in (quantized (cfg_cache_dtype cfg) \<or> cfg_enable_sparse_sfa_c8 cfg,
          quantized (cfg_indexer_kv_dtype cfg) \<or> cfg_enable_sparse_li_c8 cfg))"

text \<open>\<open>model.rstrip("/").split("/")[-1]\<close>\<close>

definition last_path_part :: "string \<Rightarrow> string" where
  "last_path_part model =
     (let stripped = rev (dropWhile (\<lambda>c. c = CHR ''/'') (rev model))
      in rev (takeWhile (\<lambda>c. c \<noteq> CHR ''/'') (rev stripped)))"

definition str_of_flag :: "bool \<Rightarrow> string" where
  "str_of_flag b = (if b then ''1'' else ''0'')"

text \<open>The layout digest is a hash of source text, a parameter of the model.\<close>

definition build_kv_hash_meta :: "string \<Rightarrow> vllm_config \<Rightarrow> int \<Rightarrow> string" where
  "build_kv_hash_meta layout_source_digest cfg rank_id =
     (let spec_info =
            (case cfg_speculative cfg of
               None \<Rightarrow> ''''
             | Some (spec_method, spec_tokens) \<Rightarrow>
                 '':'' @ (case spec_method of None \<Rightarrow> '''' | Some s \<Rightarrow> s) @ '':'' @
                 str_of_int (case spec_tokens of None \<Rightarrow> 0 | Some k \<Rightarrow> k));
          (sparse_sfa_c8, sparse_li_c8) = get_sparse_c8_flags cfg;
          sparse_c8_info =
            '':sfa_c8='' @ str_of_flag sparse_sfa_c8 @ '':li_c8='' @ str_of_flag sparse_li_c8;
          model_name = last_path_part (cfg_model cfg);
          dcp_size = (case cfg_decode_context_parallel_size cfg of None \<Rightarrow> 1 | Some k \<Rightarrow> k);
          dcp_info = '':dcp='' @ str_of_int dcp_size;
          layout_info = '':layout='' @ layout_source_digest
      in model_name @ '':'' @ str_of_int (cfg_tensor_parallel_size cfg) @ '':'' @
         cfg_dtype cfg @ '':'' @ str_of_int rank_id @
         spec_info @ sparse_c8_info @ dcp_info @ layout_info)"

definition hf_configs :: "vllm_config \<Rightarrow> hf_config list" where
  "hf_configs cfg =
     List.map_filter id [cfg_hf_text_config cfg, cfg_hf_config cfg, cfg_hf_config_text_config cfg]"

definition has_shared_indexer_layers :: "vllm_config \<Rightarrow> bool" where
  "has_shared_indexer_layers cfg =
     list_ex (\<lambda>config.
        case indexer_types config of
          None \<Rightarrow> False
        | Some items \<Rightarrow>
            list_ex (\<lambda>item. case item of None \<Rightarrow> False | Some s \<Rightarrow> lower s = ''shared'') items)
       (hf_configs cfg)"

definition is_minimax_m3 :: "vllm_config \<Rightarrow> bool" where
  "is_minimax_m3 cfg =
     list_ex (\<lambda>config. prefix ''minimax_m3'' (lower (model_type config))) (hf_configs cfg)"

section \<open>The rank field separates namespaces\<close>

text \<open>Two fields without a colon, each followed by a colon, are equal as texts only if equal.\<close>

lemma takeWhile_field: "CHR '':'' \<notin> set a \<Longrightarrow> takeWhile (\<lambda>c. c \<noteq> CHR '':'') (a @ CHR '':'' # x) = a"
  by (induction a) auto

lemma colon_field_inject:
  assumes "CHR '':'' \<notin> set a" "CHR '':'' \<notin> set b" "a @ CHR '':'' # x = b @ CHR '':'' # y"
  shows "a = b"
  using takeWhile_field [OF assms(1), of x] takeWhile_field [OF assms(2), of y] assms(3) by simp

lemma str_of_int_no_colon: "CHR '':'' \<notin> set (str_of_int i)"
  using str_of_nat_digits digit_char_neq(2) unfolding str_of_int_def by (auto split: if_splits) metis+

lemma meta_shape: "\<exists>front rest. \<forall>rank_id. build_kv_hash_meta d cfg rank_id = front @ str_of_int rank_id @ CHR '':'' # rest"
proof -
  have "\<exists>rest. \<forall>rank_id. build_kv_hash_meta d cfg rank_id =
    (last_path_part (cfg_model cfg) @ '':'' @ str_of_int (cfg_tensor_parallel_size cfg) @ '':'' @ cfg_dtype cfg @ '':'')
    @ str_of_int rank_id @ CHR '':'' # rest"
    unfolding build_kv_hash_meta_def Let_def
    by (cases "cfg_speculative cfg") (simp_all add: case_prod_beta)
  then show ?thesis by blast
qed

lemma meta_rank_separates:
  assumes "build_kv_hash_meta d cfg rank_id @ x = build_kv_hash_meta d cfg rank_id' @ y"
  shows "rank_id = rank_id'"
proof -
  obtain front rest where "\<And>r. build_kv_hash_meta d cfg r = front @ str_of_int r @ CHR '':'' # rest"
    using meta_shape by blast
  with assms have "str_of_int rank_id @ CHR '':'' # (rest @ x) = str_of_int rank_id' @ CHR '':'' # (rest @ y)"
    by simp
  from colon_field_inject [OF str_of_int_no_colon str_of_int_no_colon this] show ?thesis by simp
qed

end
