(* ===== verification/KV_Layout.thy ===== *)
theory KV_Layout
  imports Vllm_Config "HOL-Library.Product_Lexorder" "HOL-Library.Multiset"
begin

text \<open>
  \<open>KVCacheLayout\<close> (src/ucm/integration/vllm/ucm_connector.py): from vLLM's registered KV-cache
  tensors to the table of base pointers, sizes and strides (numpy \<open>uint64\<close> arrays) from which
  the device addresses of a block are computed. A tensor is its data pointer, shape, strides
  (in elements) and element size; the layer index of a layer name is a parameter (vLLM's
  \<open>extract_layer_index\<close>). Arrays of \<open>uint64\<close> are lists of 64-bit words, whose arithmetic wraps
  as numpy's does, and converting a Python integer outside the range raises.
\<close>

section \<open>Tensors\<close>

record tensor =
  t_ptr :: int
  t_shape :: "int list"
  t_stride :: "int list"
  t_elem :: int

datatype kv_component = TensorPart tensor | OtherPart
datatype kv_layer =
    TensorLayer tensor
  | TupleLayer "kv_component list"
  | ListLayer "kv_component list"
  | OtherLayer

text \<open>\<open>tensor[i]\<close> on the leading dimension.\<close>

definition select :: "tensor \<Rightarrow> int \<Rightarrow> tensor" where
  "select x i =
     \<lparr> t_ptr = t_ptr x + i * hd (t_stride x) * t_elem x, t_shape = tl (t_shape x),
       t_stride = tl (t_stride x), t_elem = t_elem x \<rparr>"

record tensor_info =
  ti_ptr :: int
  ti_bytes_per_block :: int
  ti_buffer_size :: int
  ti_block_stride :: int
  ti_physical_blocks :: int

record layout_config =
  lc_use_layerwise :: bool
  lc_num_blocks :: int
  lc_pp_size :: int
  lc_num_hidden_layers :: int
  lc_dcp_size :: "int option"
  lc_speculative_mtp :: bool
  lc_n_predict :: "int option"

section \<open>Describing one layer\<close>

definition packing :: "tensor \<Rightarrow> (int \<times> int) list" where
  "packing x = sort (filter (\<lambda>(stride, sz). sz > 1) (zip (tl (t_stride x)) (tl (t_shape x))))"

fun dense_page :: "int \<Rightarrow> (int \<times> int) list \<Rightarrow> bool" where
  "dense_page expected_stride [] = True"
| "dense_page expected_stride ((stride, sz) # ps) =
     (stride = expected_stride \<and> dense_page (expected_stride * sz) ps)"

definition handle_tensor :: "tensor \<Rightarrow> tensor_info res" where
  "handle_tensor x =
     (let bytes_per_block = prod_list (tl (t_shape x)) * t_elem x
      in if \<not> dense_page 1 (packing x) then Inl (ValueError ''KV cache block is not a dense page'')
         else if t_shape x = [] then Inl IndexError
         else
           let block_stride = hd (t_stride x) * t_elem x
           in if block_stride < bytes_per_block then Inl (ValueError ''Overlapping KV cache blocks'')
              else
                let physical_blocks = hd (t_shape x)
                in if physical_blocks = 0 then Inl IndexError
                   else Inr \<lparr> ti_ptr = t_ptr x, ti_bytes_per_block = bytes_per_block,
                              ti_buffer_size = (physical_blocks - 1) * block_stride + bytes_per_block,
                              ti_block_stride = block_stride, ti_physical_blocks = physical_blocks \<rparr>)"

definition component_infos :: "kv_component list \<Rightarrow> tensor_info list res" where
  "component_infos parts =
     mapR (\<lambda>part. case part of
               TensorPart x \<Rightarrow> handle_tensor x
             | OtherPart \<Rightarrow> Inl (TypeError ''KV cache component must be a tensor'')) parts"

definition tensor_infos :: "kv_layer \<Rightarrow> tensor_info list res" where
  "tensor_infos kv_layer =
     (case kv_layer of
        TensorLayer x \<Rightarrow>
          if length (t_shape x) = 5 \<and> hd (t_shape x) = 2
          then mapR handle_tensor [select x 0, select x 1]
          else mapR handle_tensor [x]
      | TupleLayer parts \<Rightarrow> component_infos parts
      | ListLayer parts \<Rightarrow> component_infos parts
      | OtherLayer \<Rightarrow> Inl (TypeError ''Unsupported KV cache type''))"

section \<open>Rows of tensors\<close>

type_synonym kv_caches = "(string \<times> kv_layer) list"

definition layer_ids :: "(string \<Rightarrow> int res) \<Rightarrow> kv_caches \<Rightarrow> (string \<times> int) list res" where
  "layer_ids extract_layer_index kvcaches =
     mapR (\<lambda>(name, _). bindR (extract_layer_index name) (\<lambda>i. Inr (name, i))) kvcaches"

text \<open>A Python list index: a negative one counts from the end.\<close>

definition list_index :: "'a list \<Rightarrow> int \<Rightarrow> nat res" where
  "list_index xs i =
     (if 0 \<le> i \<and> i < int (length xs) then Inr (nat i)
      else if - int (length xs) \<le> i \<and> i < 0 then Inr (nat (int (length xs) + i))
      else Inl IndexError)"

fun place_rows ::
  "(string \<times> int) list \<Rightarrow> int \<Rightarrow> kv_caches \<Rightarrow> tensor_info list list \<Rightarrow> tensor_info list list res" where
  "place_rows name_to_id first_layer_id [] tensor_rows = Inr tensor_rows"
| "place_rows name_to_id first_layer_id ((layer_name, kv_layer) # rest) tensor_rows =
     bindR (dict_get name_to_id layer_name) (\<lambda>layer_id.
     bindR (list_index tensor_rows (layer_id - first_layer_id)) (\<lambda>row.
     bindR (tensor_infos kv_layer) (\<lambda>infos.
       place_rows name_to_id first_layer_id rest (tensor_rows[row := tensor_rows ! row @ infos]))))"

definition collect_tensor_rows ::
  "(string \<times> int) list \<Rightarrow> int \<Rightarrow> kv_caches \<Rightarrow> tensor_info list list res" where
  "collect_tensor_rows name_to_id first_layer_id kvcaches =
     place_rows name_to_id first_layer_id kvcaches
       (replicate (card (snd ` set name_to_id)) [])"

definition dcp_replicated_scale :: "layout_config \<Rightarrow> tensor_info \<Rightarrow> int res" where
  "dcp_replicated_scale C x =
     (let dcp_size = (case lc_dcp_size C of None \<Rightarrow> 1 | Some k \<Rightarrow> k)
      in if dcp_size \<le> 1 \<or> ti_bytes_per_block x = 0 then Inr 1
         else if ti_physical_blocks x = lc_num_blocks C * dcp_size
         then if ti_block_stride x \<noteq> ti_bytes_per_block x
              then Inl (ValueError ''DCP-replicated KV rows must be contiguous'')
              else Inr dcp_size
         else Inr 1)"

section \<open>The table\<close>

definition to_u64 :: "int \<Rightarrow> u64 res" where
  "to_u64 i = (if 0 \<le> i \<and> i < 2 ^ 64 then Inr (word_of_int i) else Inl OverflowError)"

text \<open>
  A layout: one row per layer in layerwise mode; in direct mode the arrays are flat and are
  kept here as a single row.
\<close>

record kv_layout =
  lay_layerwise :: bool
  lay_pp_size :: int
  lay_num_layers :: int
  base_ptrs :: "u64 list list"
  buffer_sizes :: "u64 list list"
  tensor_size_lists :: "u64 list list"
  block_stride_lists :: "u64 list list"

definition num_mtp_layers :: "layout_config \<Rightarrow> int" where
  "num_mtp_layers C =
     (if \<not> lc_speculative_mtp C then 0
      else case lc_n_predict C of None \<Rightarrow> 1 | Some k \<Rightarrow> if k > 0 then k else 1)"

definition scaled :: "layout_config \<Rightarrow> (tensor_info \<Rightarrow> int) \<Rightarrow> tensor_info list \<Rightarrow> u64 list res" where
  "scaled C f row = mapR (\<lambda>x. bindR (dcp_replicated_scale C x) (\<lambda>k. to_u64 (f x * k))) row"

definition plain_row :: "(tensor_info \<Rightarrow> int) \<Rightarrow> tensor_info list \<Rightarrow> u64 list res" where
  "plain_row f row = mapR (\<lambda>x. to_u64 (f x)) row"

definition make_layout :: "layout_config \<Rightarrow> tensor_info list list \<Rightarrow> kv_layout res" where
  "make_layout C rows =
     bindR (mapR (plain_row ti_ptr) rows) (\<lambda>ptrs.
     bindR (mapR (scaled C ti_bytes_per_block) rows) (\<lambda>sizes.
     bindR (mapR (plain_row ti_buffer_size) rows) (\<lambda>buffers.
     bindR (mapR (scaled C ti_block_stride) rows) (\<lambda>strides.
       Inr \<lparr> lay_layerwise = lc_use_layerwise C, lay_pp_size = lc_pp_size C,
             lay_num_layers = lc_num_hidden_layers C + num_mtp_layers C,
             base_ptrs = ptrs, buffer_sizes = buffers, tensor_size_lists = sizes,
             block_stride_lists = strides \<rparr>))))"

definition build_layout :: "layout_config \<Rightarrow> tensor_info list list \<Rightarrow> kv_layout res" where
  "build_layout C tensor_rows =
     (if \<not> lc_use_layerwise C then make_layout C [concat tensor_rows]
      else if tensor_rows = [] \<or> hd tensor_rows = []
      then Inl (ValueError ''KV cache layout must contain at least one tensor'')
      else
        let stride_rows = map (map ti_bytes_per_block) tensor_rows
        in if \<exists>row \<in> set stride_rows. row \<noteq> hd stride_rows
           then Inl (ValueError ''Invalid generic KV cache layout'')
           else make_layout C tensor_rows)"

definition init_kv_cache_layout ::
  "(string \<Rightarrow> int res) \<Rightarrow> layout_config \<Rightarrow> kv_caches \<Rightarrow> kv_layout res" where
  "init_kv_cache_layout extract_layer_index C kvcaches =
     (if lc_pp_size C > 1 \<and> lc_num_hidden_layers C \<le> 0
      then Inl (ValueError ''num_hidden_layers must be > 0 when pp_size > 1'')
      else
        bindR (layer_ids extract_layer_index kvcaches) (\<lambda>name_to_id.
          case name_to_id of
            [] \<Rightarrow> Inl (OtherException ''StopIteration'')
          | (_, first_layer_id) # _ \<Rightarrow>
              bindR (collect_tensor_rows name_to_id first_layer_id kvcaches) (build_layout C)))"

section \<open>Addresses and sizes\<close>

datatype addr_array = Addr2 "u64 list list" | Addr3 "u64 list list list"

definition block_addr :: "u64 \<Rightarrow> u64 \<Rightarrow> u64 \<Rightarrow> u64" where
  "block_addr block_id stride base = block_id * stride + base"

definition extract_block_addrs :: "kv_layout \<Rightarrow> int list \<Rightarrow> bool \<Rightarrow> addr_array res" where
  "extract_block_addrs L vllm_block_ids layer_first =
     bindR (mapR to_u64 vllm_block_ids) (\<lambda>ids.
       if \<not> lay_layerwise L
       then if layer_first then Inl (ValueError ''layer_first=True requires a layerwise KV cache layout'')
            else Inr (Addr2 (map (\<lambda>b. map (\<lambda>(s, p). block_addr b s p)
                   (zip (hd (block_stride_lists L)) (hd (base_ptrs L)))) ids))
       else if layer_first
       then Inr (Addr3 (map (\<lambda>(ss, ps). map (\<lambda>b. map (\<lambda>(s, p). block_addr b s p) (zip ss ps)) ids)
              (zip (block_stride_lists L) (base_ptrs L))))
       else Inr (Addr3 (map (\<lambda>b. map (\<lambda>(ss, ps). map (\<lambda>(s, p). block_addr b s p) (zip ss ps))
              (zip (block_stride_lists L) (base_ptrs L))) ids)))"

definition tensor_size_list :: "kv_layout \<Rightarrow> u64 list" where
  "tensor_size_list L =
     (if \<not> lay_layerwise L then concat (tensor_size_lists L) else hd (tensor_size_lists L))"

definition shard_size :: "kv_layout \<Rightarrow> int" where
  "shard_size L =
     uint (if \<not> lay_layerwise L then sum_list (concat (tensor_size_lists L))
           else sum_list (hd (tensor_size_lists L)))"

text \<open>
  With pipeline parallelism \<open>tensor_size_lists[0]\<close> is the first row of a layerwise layout but
  the first element of a direct layout's flat array.
\<close>

definition block_size :: "kv_layout \<Rightarrow> int res" where
  "block_size L =
     (if lay_pp_size L > 1
      then if lay_layerwise L then Inr (uint (sum_list (hd (tensor_size_lists L))) * lay_num_layers L)
           else (case hd (tensor_size_lists L) of
                   [] \<Rightarrow> Inl IndexError
                 | s # _ \<Rightarrow> Inr (uint s * lay_num_layers L))
      else Inr (uint (sum_list (concat (tensor_size_lists L)))))"

text \<open>
  Every shard of a layerwise block is described to the store by the first row's sizes, so
  all rows must have the same ones.
\<close>

definition uniform_rows :: "kv_layout \<Rightarrow> bool" where
  "uniform_rows L \<longleftrightarrow> tensor_size_lists L \<noteq> [] \<and> (\<forall>row \<in> set (tensor_size_lists L). row = hd (tensor_size_lists L))"

section \<open>What a page holds\<close>

text \<open>
  The element offsets of one block: all sums of index times stride over the inner dimensions.
\<close>

fun offsets :: "(int \<times> int) list \<Rightarrow> int set" where
  "offsets [] = {0}"
| "offsets ((stride, sz) # dims) = (\<Union>i \<in> {0..<sz}. (\<lambda>off. i * stride + off) ` offsets dims)"

definition page_offsets :: "tensor \<Rightarrow> int set" where
  "page_offsets x = offsets (zip (tl (t_stride x)) (tl (t_shape x)))"

definition tensor_ok :: "tensor \<Rightarrow> bool" where
  "tensor_ok x \<longleftrightarrow>
     length (t_stride x) = length (t_shape x) \<and> 0 < t_elem x \<and> (\<forall>n \<in> set (t_shape x). 0 \<le> n)"

definition block_bytes :: "tensor \<Rightarrow> int \<Rightarrow> int set" where
  "block_bytes x b =
     (\<Union>off \<in> page_offsets x. \<Union>j \<in> {0..<t_elem x}. {t_ptr x + (b * hd (t_stride x) + off) * t_elem x + j})"

definition info_ok :: "tensor_info \<Rightarrow> bool" where
  "info_ok x \<longleftrightarrow>
     0 \<le> ti_ptr x \<and> 0 \<le> ti_bytes_per_block x \<and> ti_bytes_per_block x \<le> ti_block_stride x \<and>
     0 < ti_physical_blocks x \<and>
     ti_buffer_size x = (ti_physical_blocks x - 1) * ti_block_stride x + ti_bytes_per_block x \<and>
     ti_ptr x + ti_buffer_size x < 2 ^ 64"

text \<open>The tensor has the rows that blocks below the configured number address.\<close>

definition rows_allocated :: "layout_config \<Rightarrow> tensor_info \<Rightarrow> bool" where
  "rows_allocated C x \<longleftrightarrow> lc_num_blocks C \<le> ti_physical_blocks x"

text \<open>A transposed page, for evaluation.\<close>

definition example_tensor :: tensor where
  "example_tensor = \<lparr> t_ptr = 4096, t_shape = [4, 2, 8], t_stride = [16, 1, 2], t_elem = 2 \<rparr>"

definition example_info :: tensor_info where
  "example_info = \<lparr> ti_ptr = 4096, ti_bytes_per_block = 32, ti_buffer_size = 128, ti_block_stride = 32, ti_physical_blocks = 4 \<rparr>"

definition example_config :: layout_config where
  "example_config = \<lparr> lc_use_layerwise = True, lc_num_blocks = 2, lc_pp_size = 1, lc_num_hidden_layers = 1,
     lc_dcp_size = Some 2, lc_speculative_mtp = False, lc_n_predict = None \<rparr>"

section \<open>Dense pages\<close>

lemma mem_offsets:
  "v \<in> offsets ((s, n) # ps) \<longleftrightarrow> (\<exists>i off. 0 \<le> i \<and> i < n \<and> off \<in> offsets ps \<and> v = i * s + off)"
  by auto

lemma offsets_swap_le: "offsets (p # q # ps) \<subseteq> offsets (q # p # ps)"
proof
  fix v assume v: "v \<in> offsets (p # q # ps)"
  obtain s n s' n' where pq: "p = (s, n)" "q = (s', n')" by (cases p; cases q)
  with v obtain i j off where "0 \<le> i" "i < n" "0 \<le> j" "j < n'" "off \<in> offsets ps" "v = i * s + (j * s' + off)"
    unfolding pq mem_offsets by blast
  moreover from this have "v = j * s' + (i * s + off)" by simp
  ultimately show "v \<in> offsets (q # p # ps)" unfolding pq mem_offsets by blast
qed

lemma offsets_swap: "offsets (p # q # ps) = offsets (q # p # ps)"
  by (intro equalityI offsets_swap_le)

lemma offsets_remove1: "p \<in> set ps \<Longrightarrow> offsets ps = offsets (p # remove1 p ps)"
proof (induction ps)
  case (Cons q ps)
  show ?case
  proof (cases "p = q")
    case False
    with Cons have "offsets ps = offsets (p # remove1 p ps)" by simp
    then have "offsets (q # ps) = offsets (q # p # remove1 p ps)" by (cases q) simp
    also have "\<dots> = offsets (p # q # remove1 p ps)" by (rule offsets_swap)
    finally show ?thesis using False by simp
  qed simp
qed simp

lemma offsets_mset: "mset ps = mset qs \<Longrightarrow> offsets ps = offsets qs"
proof (induction ps arbitrary: qs)
  case (Cons p ps)
  then have mem: "p \<in> set qs" by (metis list.set_intros(1) mset_eq_setD)
  have "mset ps = mset (remove1 p qs)" using Cons.prems [symmetric] by simp
  with Cons.IH have "offsets ps = offsets (remove1 p qs)" by blast
  then have "offsets (p # ps) = offsets (p # remove1 p qs)" by (cases p) simp
  with offsets_remove1 [OF mem] show ?case by simp
qed simp

lemma offsets_drop_unit: "\<forall>p \<in> set ps. 1 \<le> snd p \<Longrightarrow> offsets (filter (\<lambda>(s, n). n > 1) ps) = offsets ps"
proof (induction ps)
  case (Cons p ps)
  obtain s n where p: "p = (s, n)" by (cases p)
  show ?case
  proof (cases "n > 1")
    case False
    with Cons.prems p have "n = 1" by simp
    then have "{0..<n} = {0}" by auto
    with Cons p False show ?thesis by simp
  qed (use Cons p in simp)
qed simp

lemma mixed_radix:
  fixes n k :: int
  assumes "0 < n" "0 \<le> k"
  shows "(\<Union>i \<in> {0..<n}. (\<lambda>j. i + n * j) ` {0..<k}) = {0..<n * k}"
proof (intro equalityI subsetI)
  fix v assume "v \<in> (\<Union>i \<in> {0..<n}. (\<lambda>j. i + n * j) ` {0..<k})"
  then obtain i j where v: "v = i + n * j" "0 \<le> i" "i < n" "0 \<le> j" "j < k" by auto
  have "i + n * j < n * (j + 1)" using v by (simp add: algebra_simps)
  also have "\<dots> \<le> n * k" using v assms by (intro mult_left_mono) simp_all
  finally show "v \<in> {0..<n * k}" using v assms by simp
next
  fix v assume v: "v \<in> {0..<n * k}"
  have split: "v = v mod n + n * (v div n)" by simp
  have "0 \<le> v mod n" "v mod n < n" using assms(1) by simp_all
  moreover from this split v have "n * (v div n) < n * k" by (metis atLeastLessThan_iff le_add_same_cancel2 order_le_less_trans)
  then have "v div n < k" using assms(1) by simp
  moreover have "0 \<le> v div n" using v assms(1) by (simp add: pos_imp_zdiv_nonneg_iff)
  ultimately show "v \<in> (\<Union>i \<in> {0..<n}. (\<lambda>j. i + n * j) ` {0..<k})"
    using split by (intro UN_I [of "v mod n"] image_eqI [of _ _ "v div n"]) simp_all
qed

lemma dense_offsets:
  "dense_page e ps \<Longrightarrow> \<forall>p \<in> set ps. 0 < snd p \<Longrightarrow>
   offsets ps = (\<lambda>k. e * k) ` {0..<prod_list (map snd ps)} \<and> 0 \<le> prod_list (map snd ps)"
proof (induction e ps rule: dense_page.induct)
  case (2 e s n ps)
  let ?k = "prod_list (map snd ps)"
  from 2 have IH: "offsets ps = (\<lambda>k. e * n * k) ` {0..<?k}" "0 \<le> ?k" and s: "s = e" and n: "0 < n" by auto
  have "offsets ((s, n) # ps) = (\<lambda>k. e * k) ` (\<Union>i \<in> {0..<n}. (\<lambda>j. i + n * j) ` {0..<?k})"
    by (simp add: IH s image_UN image_image algebra_simps)
  with mixed_radix [OF n IH(2)] IH(2) n show ?case by simp
qed auto

lemma prod_filter_unit: "\<forall>p \<in> set ps. 1 \<le> snd p \<Longrightarrow>
  prod_list (map snd (filter (\<lambda>(s :: int, n :: int). n > 1) ps)) = prod_list (map snd ps)"
  by (induction ps) (auto split: prod.splits)

lemma offsets_zero: "(s, 0) \<in> set ps \<Longrightarrow> offsets ps = {}"
  by (induction ps) (auto split: prod.splits)

lemma page_offsets_dense:
  assumes "tensor_ok x" "dense_page 1 (packing x)"
  shows "page_offsets x = {0..<prod_list (tl (t_shape x))}"
proof -
  let ?dims = "zip (tl (t_stride x)) (tl (t_shape x))"
  have len: "length (tl (t_stride x)) = length (tl (t_shape x))" using assms(1) by (simp add: tensor_ok_def)
  then have sizes: "map snd ?dims = tl (t_shape x)" by simp
  have nonneg: "\<forall>p \<in> set ?dims. 0 \<le> snd p"
    using assms(1) by (auto simp: tensor_ok_def dest!: set_zip_rightD intro: list.set_sel(2))
      (metis list.sel(2) list.set_sel(2))
  show ?thesis
  proof (cases "0 \<in> set (tl (t_shape x))")
    case True
    then obtain s where "(s, 0) \<in> set ?dims" using sizes by (metis imageE list.set_map prod.collapse)
    moreover have "prod_list (tl (t_shape x)) = 0" using True by (simp add: prod_list_zero_iff)
    ultimately show ?thesis by (simp add: page_offsets_def offsets_zero)
  next
    case False
    then have "\<forall>n \<in> snd ` set ?dims. n \<noteq> 0" using sizes by (metis list.set_map)
    with nonneg have ge: "\<forall>p \<in> set ?dims. 1 \<le> snd p" by force
    let ?f = "filter (\<lambda>(s, n). n > 1) ?dims"
    have "offsets (packing x) = (\<lambda>k. 1 * k) ` {0..<prod_list (map snd (packing x))}"
      using dense_offsets [OF assms(2)] by (force simp: packing_def)
    moreover have "offsets (packing x) = offsets ?dims"
      using offsets_mset [of "packing x" ?f] offsets_drop_unit [OF ge] by (simp add: packing_def)
    moreover have "prod_list (map snd (packing x)) = prod_list (map snd ?f)"
      by (simp add: prod_mset_prod_list [symmetric] packing_def)
    ultimately show ?thesis
      using prod_filter_unit [OF ge] sizes by (simp add: page_offsets_def)
  qed
qed

lemma handle_tensor_InrD:
  assumes "handle_tensor x = Inr i"
  shows "dense_page 1 (packing x)" "t_shape x \<noteq> []" "ti_ptr i = t_ptr x"
    "ti_bytes_per_block i = prod_list (tl (t_shape x)) * t_elem x"
    "ti_block_stride i = hd (t_stride x) * t_elem x" "ti_physical_blocks i = hd (t_shape x)"
    "ti_bytes_per_block i \<le> ti_block_stride i" "ti_physical_blocks i \<noteq> 0"
    "ti_buffer_size i = (ti_physical_blocks i - 1) * ti_block_stride i + ti_bytes_per_block i"
  using assms by (auto simp: handle_tensor_def Let_def split: if_splits)

lemma elements_to_bytes:
  fixes e n :: int
  assumes "0 < e" "0 \<le> n"
  shows "(\<Union>off \<in> {0..<n}. \<Union>j \<in> {0..<e}. {p + (q + off) * e + j}) = {p + q * e..<p + q * e + n * e}"
proof -
  have "(\<Union>off \<in> {0..<n}. \<Union>j \<in> {0..<e}. {p + (q + off) * e + j}) =
    (\<Union>j \<in> {0..<e}. (\<lambda>off. p + (q + off) * e + j) ` {0..<n})"
    by auto
  also have "\<dots> = (\<lambda>v. p + q * e + v) ` (\<Union>j \<in> {0..<e}. (\<lambda>off. j + e * off) ` {0..<n})"
    by (simp add: image_UN image_image algebra_simps)
  also have "\<dots> = (\<lambda>v. p + q * e + v) ` {0..<e * n}" by (simp only: mixed_radix [OF assms])
  also have "\<dots> = {p + q * e..<p + q * e + n * e}" by (simp add: mult.commute add.commute)
  finally show ?thesis .
qed

lemma prod_list_nonneg: "\<forall>n \<in> set ns. (0 :: int) \<le> n \<Longrightarrow> 0 \<le> prod_list ns"
  by (induction ns) auto

lemma block_bytes_segment:
  assumes "tensor_ok x" "handle_tensor x = Inr i"
  shows "block_bytes x b =
    {ti_ptr i + b * ti_block_stride i..<ti_ptr i + b * ti_block_stride i + ti_bytes_per_block i}"
proof -
  note i = handle_tensor_InrD [OF assms(2)]
  have "0 < t_elem x" "0 \<le> prod_list (tl (t_shape x))"
    using assms(1) i(2) by (auto simp: tensor_ok_def intro!: prod_list_nonneg dest: list.set_sel(2))
  with elements_to_bytes [of "t_elem x" "prod_list (tl (t_shape x))" "t_ptr x" "b * hd (t_stride x)"]
  show ?thesis
    by (simp add: block_bytes_def page_offsets_dense [OF assms(1) i(1)] i(3-5) mult.assoc)
qed

lemma handle_tensor_info_ok:
  assumes "tensor_ok x" "handle_tensor x = Inr i" "0 \<le> t_ptr x" "ti_ptr i + ti_buffer_size i < 2 ^ 64"
  shows "info_ok i"
proof -
  note i = handle_tensor_InrD [OF assms(2)]
  have "0 \<le> prod_list (tl (t_shape x))" "0 \<le> hd (t_shape x)" "0 < t_elem x"
    using assms(1) i(2) by (auto simp: tensor_ok_def intro!: prod_list_nonneg dest: list.set_sel(2))
  with i assms(3,4) show ?thesis by (simp add: info_ok_def)
qed

section \<open>Addresses\<close>

lemma to_u64_InrD: "to_u64 i = Inr w \<Longrightarrow> uint w = i \<and> 0 \<le> i \<and> i < 2 ^ 64 \<and> w = word_of_int i"
  by (auto simp: to_u64_def uint_word_of_int split: if_splits)

lemma scale_cases:
  assumes "dcp_replicated_scale C x = Inr k"
  shows "k = 1 \<or> (1 < k \<and> ti_physical_blocks x = lc_num_blocks C * k \<and> ti_block_stride x = ti_bytes_per_block x)"
  using assms by (auto simp: dcp_replicated_scale_def Let_def split: if_splits option.splits)

text \<open>The segment of a block lies in the tensor's buffer.\<close>

lemma segment_in_buffer:
  assumes "info_ok x" "rows_allocated C x" "dcp_replicated_scale C x = Inr k" "0 \<le> b" "b < lc_num_blocks C"
  shows "b * (ti_block_stride x * k) + ti_bytes_per_block x * k \<le> ti_buffer_size x"
proof -
  let ?s = "ti_block_stride x" and ?n = "ti_bytes_per_block x" and ?P = "ti_physical_blocks x"
  have s: "0 \<le> ?s" and buf: "ti_buffer_size x = (?P - 1) * ?s + ?n" using assms(1) by (auto simp: info_ok_def)
  from scale_cases [OF assms(3)] show ?thesis
  proof
    assume "k = 1"
    moreover have "b * ?s \<le> (?P - 1) * ?s"
      using assms(2,5) s by (intro mult_right_mono) (simp_all add: rows_allocated_def)
    ultimately show ?thesis by (simp add: buf)
  next
    assume k: "1 < k \<and> ?P = lc_num_blocks C * k \<and> ?s = ?n"
    have "(b + 1) * (?s * k) \<le> lc_num_blocks C * (?s * k)"
      using assms(5) s k by (intro mult_right_mono) simp_all
    with k show ?thesis by (simp add: buf algebra_simps)
  qed
qed

lemma segments_disjoint:
  assumes "info_ok x" "dcp_replicated_scale C x = Inr k" "b < b'"
  shows "b * (ti_block_stride x * k) + ti_bytes_per_block x * k \<le> b' * (ti_block_stride x * k)"
proof -
  have k: "0 < k" using scale_cases [OF assms(2)] by auto
  have "0 \<le> ti_block_stride x" "ti_bytes_per_block x \<le> ti_block_stride x" using assms(1) by (auto simp: info_ok_def)
  then have "ti_bytes_per_block x * k \<le> ti_block_stride x * k" using k by (intro mult_right_mono) simp_all
  then have "b * (ti_block_stride x * k) + ti_bytes_per_block x * k \<le> (b + 1) * (ti_block_stride x * k)"
    by (simp add: algebra_simps)
  also have "\<dots> \<le> b' * (ti_block_stride x * k)"
    using assms(3) \<open>0 \<le> ti_block_stride x\<close> k by (intro mult_right_mono) simp_all
  finally show ?thesis .
qed

lemma block_addr_no_wrap:
  fixes w s p :: u64
  assumes "uint w * uint s + uint p < 2 ^ 64"
  shows "uint (block_addr w s p) = uint w * uint s + uint p"
proof -
  have "0 \<le> uint w * uint s" by simp
  with assms have "uint w * uint s < 2 ^ 64" using uint_ge_0 [of p] by linarith
  then have ws: "uint (w * s) = uint w * uint s" by (simp add: uint_word_arith_bintrs take_bit_int_eq_self_iff)
  show ?thesis
    unfolding block_addr_def uint_word_arith_bintrs(1) ws
    using assms by (simp add: take_bit_int_eq_self_iff)
qed

lemma make_layout_nth:
  assumes "make_layout C rows = Inr L" "r < length rows" "c < length (rows ! r)"
  shows "to_u64 (ti_ptr (rows ! r ! c)) = Inr (base_ptrs L ! r ! c)"
    and "\<exists>k. dcp_replicated_scale C (rows ! r ! c) = Inr k \<and>
      to_u64 (ti_bytes_per_block (rows ! r ! c) * k) = Inr (tensor_size_lists L ! r ! c) \<and>
      to_u64 (ti_block_stride (rows ! r ! c) * k) = Inr (block_stride_lists L ! r ! c)"
proof -
  from assms(1) have m: "mapR (plain_row ti_ptr) rows = Inr (base_ptrs L)"
    "mapR (scaled C ti_bytes_per_block) rows = Inr (tensor_size_lists L)"
    "mapR (scaled C ti_block_stride) rows = Inr (block_stride_lists L)"
    by (auto simp: make_layout_def bindR_eq_Inr)
  show "to_u64 (ti_ptr (rows ! r ! c)) = Inr (base_ptrs L ! r ! c)"
    using mapR_nth [OF m(1) assms(2)] assms(3) unfolding plain_row_def by (rule mapR_nth)
  have "mapR (\<lambda>x. bindR (dcp_replicated_scale C x) (\<lambda>k. to_u64 (ti_bytes_per_block x * k))) (rows ! r) = Inr (tensor_size_lists L ! r)"
    "mapR (\<lambda>x. bindR (dcp_replicated_scale C x) (\<lambda>k. to_u64 (ti_block_stride x * k))) (rows ! r) = Inr (block_stride_lists L ! r)"
    using mapR_nth [OF m(2) assms(2)] mapR_nth [OF m(3) assms(2)] unfolding scaled_def by simp_all
  from mapR_nth [OF this(1) assms(3)] mapR_nth [OF this(2) assms(3)]
  show "\<exists>k. dcp_replicated_scale C (rows ! r ! c) = Inr k \<and>
      to_u64 (ti_bytes_per_block (rows ! r ! c) * k) = Inr (tensor_size_lists L ! r ! c) \<and>
      to_u64 (ti_block_stride (rows ! r ! c) * k) = Inr (block_stride_lists L ! r ! c)"
    by (auto simp: bindR_eq_Inr)
qed

lemma make_layout_shape:
  assumes "make_layout C rows = Inr L"
  shows "map length (base_ptrs L) = map length rows" "map length (tensor_size_lists L) = map length rows"
    "map length (block_stride_lists L) = map length rows" "map length (buffer_sizes L) = map length rows"
    "lay_layerwise L = lc_use_layerwise C" "lay_pp_size L = lc_pp_size C"
proof -
  have rows: "map length ys = map length rows" if "mapR f rows = Inr ys" "\<And>x y. f x = Inr y \<Longrightarrow> length y = length x"
    for f :: "tensor_info list \<Rightarrow> u64 list res" and ys
    using that by (intro nth_equalityI) (simp_all add: mapR_length mapR_nth)
  have len: "plain_row f x = Inr y \<Longrightarrow> length y = length x" "scaled C f x = Inr y \<Longrightarrow> length y = length x" for f x y
    by (auto simp: plain_row_def scaled_def dest: mapR_length)
  from assms have "mapR (plain_row ti_ptr) rows = Inr (base_ptrs L)"
    "mapR (scaled C ti_bytes_per_block) rows = Inr (tensor_size_lists L)"
    "mapR (scaled C ti_block_stride) rows = Inr (block_stride_lists L)"
    "mapR (plain_row ti_buffer_size) rows = Inr (buffer_sizes L)"
    by (auto simp: make_layout_def bindR_eq_Inr)
  then show "map length (base_ptrs L) = map length rows" "map length (tensor_size_lists L) = map length rows"
    "map length (block_stride_lists L) = map length rows" "map length (buffer_sizes L) = map length rows"
    using rows len by metis+
  from assms show "lay_layerwise L = lc_use_layerwise C" "lay_pp_size L = lc_pp_size C"
    by (auto simp: make_layout_def bindR_eq_Inr)
qed

text \<open>
  A cell of a layout that stands for a tensor: the table's words are its pointer, and its
  segment size and stride after scaling.
\<close>

lemma cell_address:
  assumes "make_layout C rows = Inr L" "r < length rows" "c < length (rows ! r)"
    and "info_ok (rows ! r ! c)" "rows_allocated C (rows ! r ! c)" "0 \<le> b" "b < lc_num_blocks C"
    and "to_u64 b = Inr w"
  shows "\<exists>k. dcp_replicated_scale C (rows ! r ! c) = Inr k \<and>
    uint (block_addr w (block_stride_lists L ! r ! c) (base_ptrs L ! r ! c)) =
      ti_ptr (rows ! r ! c) + b * (ti_block_stride (rows ! r ! c) * k) \<and>
    uint (tensor_size_lists L ! r ! c) = ti_bytes_per_block (rows ! r ! c) * k"
proof -
  let ?x = "rows ! r ! c"
  from make_layout_nth [OF assms(1-3)] obtain k where k: "dcp_replicated_scale C ?x = Inr k"
    "uint (base_ptrs L ! r ! c) = ti_ptr ?x" "uint (tensor_size_lists L ! r ! c) = ti_bytes_per_block ?x * k"
    "uint (block_stride_lists L ! r ! c) = ti_block_stride ?x * k"
    by (auto dest!: to_u64_InrD)
  have w: "uint w = b" using to_u64_InrD [OF assms(8)] by blast
  have "0 < k" using scale_cases [OF k(1)] by auto
  then have "0 \<le> ti_bytes_per_block ?x * k" using assms(4) by (simp add: info_ok_def)
  with segment_in_buffer [OF assms(4,5) k(1) assms(6,7)] assms(4)
  have "ti_ptr ?x + b * (ti_block_stride ?x * k) < 2 ^ 64" by (simp add: info_ok_def)
  with block_addr_no_wrap [of w "block_stride_lists L ! r ! c" "base_ptrs L ! r ! c"] k w show ?thesis
    by (simp add: add.commute)
qed

lemma extract_layerwise_nth:
  assumes "extract_block_addrs L ids layer_first = Inr (Addr3 a)" "i < length ids" "r < length (base_ptrs L)"
    and "map length (block_stride_lists L) = map length (base_ptrs L)" "c < length (base_ptrs L ! r)"
  shows "\<exists>w. to_u64 (ids ! i) = Inr w \<and>
    (if layer_first then a ! r ! i ! c else a ! i ! r ! c) =
    block_addr w (block_stride_lists L ! r ! c) (base_ptrs L ! r ! c)"
proof -
  from assms(1) obtain ws where ws: "mapR to_u64 ids = Inr ws"
    by (auto simp: extract_block_addrs_def bindR_eq_Inr)
  note len = mapR_length [OF ws] and nth = mapR_nth [OF ws assms(2)]
  have rows: "length (block_stride_lists L) = length (base_ptrs L)" using assms(4) by (metis length_map)
  have cols: "length (block_stride_lists L ! r) = length (base_ptrs L ! r)"
    using assms(3,4) rows by (metis nth_map)
  from assms(1) ws nth show ?thesis
    using len rows cols assms(2,3,5)
    by (cases layer_first) (auto simp: extract_block_addrs_def split: if_splits)
qed

section \<open>The row schema\<close>

lemma uint_sum_list:
  fixes ws :: "u64 list"
  assumes "sum_list (map uint ws) < 2 ^ 64"
  shows "uint (sum_list ws) = sum_list (map uint ws)"
  using assms
proof (induction ws)
  case (Cons w ws)
  have nonneg: "0 \<le> sum_list (map uint ws)" by (induction ws) simp_all
  have "sum_list (map uint ws) < 2 ^ 64" using Cons.prems uint_ge_0 [of w] unfolding list.map sum_list.Cons by linarith
  with Cons.IH have "uint (sum_list ws) = sum_list (map uint ws)" by blast
  with Cons.prems nonneg show ?case
    by (simp add: uint_word_arith_bintrs(1) take_bit_int_eq_self_iff)
qed simp

lemma sum_uint_nonneg: "0 \<le> sum_list (map uint (ws :: u64 list))"
  by (induction ws) simp_all

lemma sum_replicate_rows:
  "sum_list (map uint (concat (replicate n (r :: u64 list)))) = int n * sum_list (map uint r)"
  by (induction n) (simp_all add: algebra_simps)

lemma uniform_rowsE:
  assumes "uniform_rows L"
  obtains n r where "tensor_size_lists L = replicate (Suc n) r"
proof -
  let ?T = "tensor_size_lists L"
  from assms have "?T \<noteq> []" "\<forall>row \<in> set ?T. row = hd ?T" 
    unfolding uniform_rows_def by blast+
  then have "?T = replicate (length ?T) (hd ?T)" by (intro replicate_eqI) simp_all
  moreover obtain n where "length ?T = Suc n" using \<open>?T \<noteq> []\<close> by (cases ?T) simp_all
  ultimately show thesis using that by metis
qed

lemma uniform_rowsI: "tensor_size_lists L = replicate (Suc n) r \<Longrightarrow> uniform_rows L"
  by (simp add: uniform_rows_def)

text \<open>A builder whose layerwise tables have one row schema, and what the store relies on.\<close>

locale row_schema =
  fixes build :: "'a \<Rightarrow> kv_layout res"
  assumes uniform: "build x = Inr L \<Longrightarrow> lay_layerwise L \<Longrightarrow> uniform_rows L"
begin

lemma block_is_whole_shards:
  assumes "build x = Inr L" "lay_layerwise L" "lay_pp_size L \<le> 1"
    and fits: "sum_list (map uint (concat (tensor_size_lists L))) < 2 ^ 64"
  shows "block_size L = Inr (int (length (tensor_size_lists L)) * shard_size L)"
proof -
  obtain n r where rows: "tensor_size_lists L = replicate (Suc n) r"
    using uniform [OF assms(1,2)] by (rule uniform_rowsE)
  then have total: "sum_list (map uint (concat (tensor_size_lists L))) = int (Suc n) * sum_list (map uint r)"
    by (simp only: sum_replicate_rows)
  have "1 * sum_list (map uint r) \<le> int (Suc n) * sum_list (map uint r)"
    by (intro mult_right_mono sum_uint_nonneg) simp
  with fits total have "uint (sum_list r) = sum_list (map uint r)" by (intro uint_sum_list) simp
  with uint_sum_list [OF fits] total assms(2,3) show ?thesis
    by (simp add: block_size_def shard_size_def rows)
qed

lemma same_slots:
  "build x = Inr L \<Longrightarrow> lay_layerwise L \<Longrightarrow> row \<in> set (tensor_size_lists L) \<Longrightarrow> row = tensor_size_list L"
  by (erule uniform [THEN uniform_rowsE]) (auto simp: tensor_size_list_def)

end

lemma mapR_map: "mapR f (map g xs) = mapR (\<lambda>x. f (g x)) xs"
  by (induction xs) (simp_all split: sum.split)

lemma mapR_replicate:
  "mapR f xs = Inr ys \<Longrightarrow> \<forall>x \<in> set xs. f x = Inr y \<Longrightarrow> ys = replicate (length xs) y"
  by (induction xs arbitrary: ys) (auto split: sum.splits)

lemma build_layout_uniform:
  assumes "build_layout C rows = Inr L" "lay_layerwise L" "\<forall>k. lc_dcp_size C = Some k \<longrightarrow> k \<le> 1"
  shows "uniform_rows L"
proof -
  have layerwise: "lc_use_layerwise C"
    using assms(1,2) make_layout_shape(5) by (auto simp: build_layout_def Let_def split: if_splits)
  then have L: "make_layout C rows = Inr L" and ne: "rows \<noteq> []"
    and same: "\<not> (\<exists>row \<in> set (map (map ti_bytes_per_block) rows). row \<noteq> hd (map (map ti_bytes_per_block) rows))"
    using assms(1) unfolding build_layout_def Let_def by (metis Inl_Inr_False)+
  obtain first others where rows: "rows = first # others" using ne by (cases rows) simp_all
  from L have m: "mapR (scaled C ti_bytes_per_block) rows = Inr (tensor_size_lists L)"
    by (auto simp: make_layout_def bindR_eq_Inr)
  have one: "dcp_replicated_scale C x = Inr 1" for x
    using assms(3) by (auto simp: dcp_replicated_scale_def split: option.splits)
  have eq: "scaled C ti_bytes_per_block row = mapR to_u64 (map ti_bytes_per_block row)" for row
    unfolding scaled_def by (simp add: one mapR_map)
  obtain r where r: "mapR to_u64 (map ti_bytes_per_block first) = Inr r"
    using m unfolding rows by (auto simp: eq split: sum.splits)
  have "scaled C ti_bytes_per_block row = Inr r" if "row \<in> set rows" for row
  proof -
    have "map ti_bytes_per_block row = map ti_bytes_per_block first" using same that unfolding rows by auto
    then show ?thesis using r by (simp only: eq)
  qed
  then have "tensor_size_lists L = replicate (Suc (length others)) r"
    using mapR_replicate [OF m] rows by simp
  then show ?thesis by (rule uniform_rowsI)
qed

interpretation generic_schema: row_schema "\<lambda>rows. build_layout (C\<lparr>lc_dcp_size := None\<rparr>) rows" for C
  by unfold_locales (rule build_layout_uniform, auto)

section \<open>Properties\<close>

text \<open>
  C21: one contiguous copy moves exactly one block. When a tensor is accepted, the bytes of
  all elements of block \<open>b\<close> (every inner index, whatever the inner dimension order) are
  exactly the segment of \<open>bytes_per_block\<close> bytes at \<open>ptr + b * block_stride\<close>; the segments of
  different blocks do not overlap, and the blocks stay within the registered buffer.
\<close>

theorem accepted_page_is_one_segment:
  assumes "tensor_ok x" "handle_tensor x = Inr i"
  shows "block_bytes x b =
      {ti_ptr i + b * ti_block_stride i..<ti_ptr i + b * ti_block_stride i + ti_bytes_per_block i} \<and>
    (b \<noteq> b' \<longrightarrow> block_bytes x b \<inter> block_bytes x b' = {}) \<and>
    (0 \<le> b \<and> b < ti_physical_blocks i \<longrightarrow> block_bytes x b \<subseteq> {ti_ptr i..<ti_ptr i + ti_buffer_size i})"
proof -
  note seg = block_bytes_segment [OF assms] and i = handle_tensor_InrD [OF assms(2)]
  have bytes: "0 \<le> ti_bytes_per_block i"
    using assms(1) i(2,4) by (auto simp: tensor_ok_def intro!: mult_nonneg_nonneg prod_list_nonneg dest: list.set_sel(2))
  then have stride: "0 \<le> ti_block_stride i" using i(7) by simp
  have apart: "a * ti_block_stride i + ti_bytes_per_block i \<le> a' * ti_block_stride i" if "a < a'" for a a'
  proof -
    have "(a + 1) * ti_block_stride i \<le> a' * ti_block_stride i" using that stride by (intro mult_right_mono) simp_all
    with i(7) show ?thesis by (simp add: algebra_simps)
  qed
  have "block_bytes x b \<inter> block_bytes x b' = {}" if "b \<noteq> b'"
    using apart [of b b'] apart [of b' b] that unfolding seg by (cases "b < b'") auto
  moreover have "block_bytes x b \<subseteq> {ti_ptr i..<ti_ptr i + ti_buffer_size i}" if "0 \<le> b" "b < ti_physical_blocks i"
  proof -
    have "b * ti_block_stride i \<le> (ti_physical_blocks i - 1) * ti_block_stride i" "0 \<le> b * ti_block_stride i"
      using that stride by (simp_all add: mult_right_mono)
    with i(9) show ?thesis unfolding seg by auto
  qed
  ultimately show ?thesis using seg by blast
qed

lemma accepted_page_is_one_segment_witness:
  "\<exists>i. tensor_ok example_tensor \<and> handle_tensor example_tensor = Inr i \<and>
    block_bytes example_tensor 3 = {4096 + 96..<4096 + 96 + 32}"
proof -
  have ok: "tensor_ok example_tensor" by (simp add: tensor_ok_def example_tensor_def)
  have run: "handle_tensor example_tensor =
    Inr \<lparr> ti_ptr = 4096, ti_bytes_per_block = 32, ti_buffer_size = 128, ti_block_stride = 32, ti_physical_blocks = 4 \<rparr>"
    by (simp add: handle_tensor_def example_tensor_def packing_def)
  from accepted_page_is_one_segment [OF ok run, of 3 0] ok run show ?thesis by simp
qed

text \<open>
  C10: addresses are safe. For a layerwise layout built from acceptable tensors, the address
  computed (with wrapping 64-bit arithmetic) for a valid block, layer and tensor, in either
  array order, together with the transfer size the store is told, stays inside that tensor's
  registered buffer without wrapping, and the segments of two different blocks of a tensor
  never overlap; with decode context parallelism this includes replicated tensors, where one
  block spans several rows.
\<close>

theorem layerwise_addresses_safe:
  assumes "lc_use_layerwise C" "build_layout C rows = Inr L" "r < length rows" "c < length (rows ! r)"
    and "info_ok (rows ! r ! c)" "rows_allocated C (rows ! r ! c)"
    and "extract_block_addrs L ids layer_first = Inr (Addr3 a)"
    and "i < length ids" "0 \<le> ids ! i" "ids ! i < lc_num_blocks C"
    and "j < length ids" "0 \<le> ids ! j" "ids ! j < lc_num_blocks C" "ids ! i < ids ! j"
  shows "let addr = (\<lambda>i. uint (if layer_first then a ! r ! i ! c else a ! i ! r ! c));
             len = uint (tensor_size_lists L ! r ! c); x = rows ! r ! c
         in ti_ptr x \<le> addr i \<and> addr i + len \<le> addr j \<and> addr j + len \<le> ti_ptr x + ti_buffer_size x"
proof -
  let ?x = "rows ! r ! c"
  from assms(1,2) have L: "make_layout C rows = Inr L"
    by (auto simp: build_layout_def Let_def split: if_splits)
  note shape = make_layout_shape [OF L]
  have rc: "r < length (base_ptrs L)" "c < length (base_ptrs L ! r)"
    "map length (block_stride_lists L) = map length (base_ptrs L)"
    using shape assms(3,4) by (metis length_map, metis length_map nth_map, metis)
  from extract_layerwise_nth [OF assms(7,8) rc(1,3,2)] extract_layerwise_nth [OF assms(7,11) rc(1,3,2)]
  obtain wi wj where wi: "to_u64 (ids ! i) = Inr wi"
      "(if layer_first then a ! r ! i ! c else a ! i ! r ! c) = block_addr wi (block_stride_lists L ! r ! c) (base_ptrs L ! r ! c)"
    and wj: "to_u64 (ids ! j) = Inr wj"
      "(if layer_first then a ! r ! j ! c else a ! j ! r ! c) = block_addr wj (block_stride_lists L ! r ! c) (base_ptrs L ! r ! c)"
    by blast
  from cell_address [OF L assms(3-6,9,10) wi(1)] cell_address [OF L assms(3-6,12,13) wj(1)]
  obtain k where k: "dcp_replicated_scale C ?x = Inr k"
    and ai: "uint (block_addr wi (block_stride_lists L ! r ! c) (base_ptrs L ! r ! c)) = ti_ptr ?x + ids ! i * (ti_block_stride ?x * k)"
    and aj: "uint (block_addr wj (block_stride_lists L ! r ! c) (base_ptrs L ! r ! c)) = ti_ptr ?x + ids ! j * (ti_block_stride ?x * k)"
    and len: "uint (tensor_size_lists L ! r ! c) = ti_bytes_per_block ?x * k"
    by auto
  have "0 < k" using scale_cases [OF k] by auto
  then have "0 \<le> ids ! i * (ti_block_stride ?x * k)" using assms(5,9) by (simp add: info_ok_def)
  with segment_in_buffer [OF assms(5,6) k assms(12,13)] segments_disjoint [OF assms(5) k assms(14)]
  show ?thesis unfolding Let_def wi(2) wj(2) ai aj len by simp
qed

lemma layerwise_addresses_safe_witness:
  "\<exists>L a. build_layout example_config [[example_info]] = Inr L \<and>
     extract_block_addrs L [0, 1] False = Inr (Addr3 a) \<and>
     4096 \<le> uint (a ! 0 ! 0 ! 0) \<and> uint (a ! 0 ! 0 ! 0) + 64 \<le> uint (a ! 1 ! 0 ! 0) \<and>
     uint (a ! 1 ! 0 ! 0) + 64 \<le> 4096 + 128"
proof -
  let ?L = "\<lparr> lay_layerwise = True, lay_pp_size = 1, lay_num_layers = 1, base_ptrs = [[4096]],
    buffer_sizes = [[128]], tensor_size_lists = [[64]], block_stride_lists = [[64 :: u64]] \<rparr>"
  have L: "build_layout example_config [[example_info]] = Inr ?L"
    by (simp add: build_layout_def make_layout_def plain_row_def scaled_def to_u64_def dcp_replicated_scale_def
        example_config_def example_info_def num_mtp_layers_def)
  have a: "extract_block_addrs ?L [0, 1] False = Inr (Addr3 [[[4096]], [[4160]]])"
    by (simp add: extract_block_addrs_def to_u64_def block_addr_def)
  have "lc_use_layerwise example_config" "info_ok example_info" "rows_allocated example_config example_info"
    by (simp_all add: example_config_def example_info_def info_ok_def rows_allocated_def)
  from layerwise_addresses_safe [OF this(1) L _ _ _ _ a, of 0 0 0 1] this(2,3) L a
  show ?thesis by (simp add: example_config_def example_info_def)
qed

end
