(* ===== verification/Shared_Indexer_Layout.thy ===== *)
theory Shared_Indexer_Layout
  imports KV_Layout
begin

text \<open>
  \<open>SharedIndexerKVCacheLayout\<close> (ucm_connector.py): the layerwise table for models where only
  some layers own an indexer cache. Cache entries are grouped by layer and role, every layer
  becomes a row of segments with the same slot sizes, and a layer without an indexer gets a
  ghost segment (null pointer, zero stride) in that slot.
\<close>

section \<open>Segments\<close>

record segment =
  seg_ptr :: int
  seg_copy_size :: int
  seg_block_stride :: int
  seg_buffer_size :: int

definition ghost_segment :: "int \<Rightarrow> segment" where
  "ghost_segment slot_size =
     \<lparr> seg_ptr = 0, seg_copy_size = slot_size, seg_block_stride = 0, seg_buffer_size = 0 \<rparr>"

definition whole_tensor_segment :: "tensor_info \<Rightarrow> segment" where
  "whole_tensor_segment x =
     \<lparr> seg_ptr = ti_ptr x, seg_copy_size = ti_bytes_per_block x,
       seg_block_stride = ti_block_stride x, seg_buffer_size = ti_buffer_size x \<rparr>"

text \<open>
  The segment of a DCP-replicated cache spans \<open>dcp_size\<close> rows: size and stride are scaled (a
  ghost's zero stride stays zero).
\<close>

definition replicate_segment :: "bool \<Rightarrow> int \<Rightarrow> segment \<Rightarrow> segment" where
  "replicate_segment replicated dcp_size seg =
     (if replicated
      then seg\<lparr>seg_copy_size := seg_copy_size seg * dcp_size,
               seg_block_stride := seg_block_stride seg * dcp_size\<rparr>
      else seg)"

text \<open>numpy refuses rows of unequal length when the arrays are made.\<close>

definition segment_rows_layout :: "layout_config \<Rightarrow> segment list list \<Rightarrow> kv_layout res" where
  "segment_rows_layout C rows =
     (if \<exists>row \<in> set rows. length row \<noteq> length (hd rows)
      then Inl (ValueError ''inhomogeneous shape'')
      else
        bindR (mapR (mapR (\<lambda>seg. to_u64 (seg_ptr seg))) rows) (\<lambda>ptrs.
        bindR (mapR (mapR (\<lambda>seg. to_u64 (seg_copy_size seg))) rows) (\<lambda>sizes.
        bindR (mapR (mapR (\<lambda>seg. to_u64 (seg_block_stride seg))) rows) (\<lambda>strides.
        bindR (mapR (mapR (\<lambda>seg. to_u64 (seg_buffer_size seg))) rows) (\<lambda>buffers.
          Inr \<lparr> lay_layerwise = lc_use_layerwise C, lay_pp_size = lc_pp_size C,
                lay_num_layers = lc_num_hidden_layers C + num_mtp_layers C,
                base_ptrs = ptrs, buffer_sizes = buffers, tensor_size_lists = sizes,
                block_stride_lists = strides \<rparr>)))))"

section \<open>Roles\<close>

datatype cache_role = Attention | Indexer

definition is_digit_text :: "string \<Rightarrow> bool" where
  "is_digit_text s = (s \<noteq> [] \<and> list_all (\<lambda>c. 48 \<le> (of_char c :: nat) \<and> (of_char c :: nat) \<le> 57) s)"

fun dot_split :: "string \<Rightarrow> string list" where
  "dot_split [] = [[]]"
| "dot_split (c # cs) =
     (if c = CHR ''.'' then [] # dot_split cs
      else case dot_split cs of [] \<Rightarrow> [[c]] | w # ws \<Rightarrow> (c # w) # ws)"

text \<open>The path below the first \<open>layers.<n>\<close> pair.\<close>

fun below_layers :: "string list \<Rightarrow> string list option" where
  "below_layers (a # b # rest) =
     (if a = ''layers'' \<and> is_digit_text b then Some rest else below_layers (b # rest))"
| "below_layers _ = None"

definition indexer_component :: "string list \<Rightarrow> bool" where
  "indexer_component parts =
     (''indexer'' \<in> set parts \<or> (parts \<noteq> [] \<and> last parts = ''indexer'' @ [char_of (10 :: nat)]))"

definition cache_role :: "string \<Rightarrow> cache_role" where
  "cache_role layer_name =
     (let parts = filter (\<lambda>w. w \<noteq> []) (dot_split (lower layer_name));
          semantic = (case below_layers parts of None \<Rightarrow> parts | Some rest \<Rightarrow> rest)
      in if indexer_component semantic then Indexer else Attention)"

type_synonym role_tensors = "(int \<times> (tensor_info list option \<times> tensor_info list option)) list"

definition role_slot :: "cache_role \<Rightarrow> 'a \<times> 'a \<Rightarrow> 'a" where
  "role_slot role p = (case role of Attention \<Rightarrow> fst p | Indexer \<Rightarrow> snd p)"

definition set_role_slot :: "cache_role \<Rightarrow> 'a \<Rightarrow> 'a \<times> 'a \<Rightarrow> 'a \<times> 'a" where
  "set_role_slot role v p = (case role of Attention \<Rightarrow> (v, snd p) | Indexer \<Rightarrow> (fst p, v))"

fun collect_role_tensors ::
  "(string \<times> int) list \<Rightarrow> kv_caches \<Rightarrow> role_tensors \<Rightarrow> role_tensors res" where
  "collect_role_tensors name_to_id [] layer_tensors = Inr layer_tensors"
| "collect_role_tensors name_to_id ((layer_name, kv_layer) # rest) layer_tensors =
     bindR (dict_get name_to_id layer_name) (\<lambda>layer_id.
       let layer = (case map_of layer_tensors layer_id of None \<Rightarrow> (None, None) | Some l \<Rightarrow> l);
           slot = cache_role layer_name
       in if role_slot slot layer \<noteq> None then Inl (ValueError ''Duplicate Shared Indexer cache'')
          else bindR (tensor_infos kv_layer) (\<lambda>infos.
                 collect_role_tensors name_to_id rest
                   (AList.update layer_id (set_role_slot slot (Some infos) layer) layer_tensors)))"

section \<open>Layers\<close>

record si_layer =
  si_layer_id :: int
  si_sfa_tensors :: "tensor_info list"
  si_indexer :: "tensor_info option"
  si_scale :: "tensor_info option"

definition validate_uniform_sizes :: "int list \<Rightarrow> int res" where
  "validate_uniform_sizes vals =
     (case sort (remdups vals) of
        [v] \<Rightarrow> Inr v
      | _ \<Rightarrow> Inl (ValueError ''Shared Indexer KV cache layout requires one size''))"

datatype layout_mode = Bf16 | LiC8 | Mixed

definition dcp_of :: "layout_config \<Rightarrow> int" where
  "dcp_of C = (case lc_dcp_size C of None \<Rightarrow> 1 | Some k \<Rightarrow> k)"

text \<open>\<open>any(...)\<close> over the layers, which stops at the first hit and may raise before it.\<close>

fun any_replicated :: "layout_config \<Rightarrow> si_layer list \<Rightarrow> bool res" where
  "any_replicated C [] = Inr False"
| "any_replicated C (layer # layers) =
     (case si_indexer layer of
        None \<Rightarrow> any_replicated C layers
      | Some x \<Rightarrow>
          bindR (dcp_replicated_scale C x) (\<lambda>k.
            if k = dcp_of C then Inr True else any_replicated C layers))"

definition indexer_replicated :: "layout_config \<Rightarrow> si_layer list \<Rightarrow> bool res" where
  "indexer_replicated C layers = (if dcp_of C > 1 then any_replicated C layers else Inr False)"

definition row_extras ::
  "layout_mode \<Rightarrow> bool \<Rightarrow> int \<Rightarrow> int \<Rightarrow> int \<Rightarrow> int \<Rightarrow> si_layer \<Rightarrow> segment list res" where
  "row_extras layout_mode rep dcp_size indexer_size index_chunk_size scale_size layer =
     (let scaled_seg = replicate_segment rep dcp_size
      in case layout_mode of
           Bf16 \<Rightarrow>
             (case si_indexer layer of
                Some x \<Rightarrow> Inr [scaled_seg (whole_tensor_segment x)]
              | None \<Rightarrow> Inr [scaled_seg (ghost_segment indexer_size)])
         | LiC8 \<Rightarrow>
             (case si_scale layer of
                Some s \<Rightarrow>
                  (case si_indexer layer of
                     None \<Rightarrow> Inl (OtherException ''AttributeError'')
                   | Some x \<Rightarrow> Inr [scaled_seg (whole_tensor_segment x), scaled_seg (whole_tensor_segment s)])
              | None \<Rightarrow> Inr [scaled_seg (ghost_segment index_chunk_size), scaled_seg (ghost_segment scale_size)])
         | Mixed \<Rightarrow>
             let idx_copy = index_chunk_size * (if rep then dcp_size else 1)
             in case si_scale layer of
                  Some s \<Rightarrow>
                    (case si_indexer layer of
                       None \<Rightarrow> Inl (OtherException ''AttributeError'')
                     | Some x \<Rightarrow>
                         Inr [\<lparr> seg_ptr = ti_ptr x, seg_copy_size = idx_copy,
                                seg_block_stride = ti_bytes_per_block x * (if rep then dcp_size else 1),
                                seg_buffer_size = ti_buffer_size x \<rparr>,
                              scaled_seg (ghost_segment index_chunk_size),
                              scaled_seg (whole_tensor_segment s)])
                | None \<Rightarrow>
                    (case si_indexer layer of
                       Some x \<Rightarrow>
                         if ti_bytes_per_block x \<noteq> 2 * index_chunk_size
                         then Inl (ValueError ''Cannot split BF16 Indexer tensor'')
                         else
                           let idx_stride = ti_bytes_per_block x * (if rep then dcp_size else 1)
                           in Inr [\<lparr> seg_ptr = ti_ptr x, seg_copy_size = idx_copy,
                                     seg_block_stride = idx_stride, seg_buffer_size = ti_buffer_size x \<rparr>,
                                   \<lparr> seg_ptr = ti_ptr x + idx_copy, seg_copy_size = idx_copy,
                                     seg_block_stride = idx_stride, seg_buffer_size = 0 \<rparr>,
                                   scaled_seg (ghost_segment scale_size)]
                     | None \<Rightarrow>
                         Inr [scaled_seg (ghost_segment index_chunk_size),
                              scaled_seg (ghost_segment index_chunk_size),
                              scaled_seg (ghost_segment scale_size)]))"

definition build_segment_rows ::
  "layout_config \<Rightarrow> si_layer list \<Rightarrow> layout_mode \<Rightarrow> int \<Rightarrow> int \<Rightarrow> int \<Rightarrow> segment list list res" where
  "build_segment_rows C layers layout_mode indexer_size index_chunk_size scale_size =
     bindR (indexer_replicated C layers) (\<lambda>rep.
       mapR (\<lambda>layer.
               bindR (row_extras layout_mode rep (dcp_of C) indexer_size index_chunk_size scale_size layer)
                 (\<lambda>extras. Inr (map whole_tensor_segment (si_sfa_tensors layer) @ extras)))
         layers)"

section \<open>Builders\<close>

definition cuda_layer :: "role_tensors \<Rightarrow> int \<Rightarrow> si_layer res" where
  "cuda_layer layer_tensors layer_id =
     bindR (dict_get layer_tensors layer_id) (\<lambda>p.
       case p of (attention, indexer_tensors) \<Rightarrow>
         (case attention of
            None \<Rightarrow> Inl (ValueError ''layer has no Attention tensor'')
          | Some sfa \<Rightarrow>
              (case indexer_tensors of
                 None \<Rightarrow> Inr \<lparr> si_layer_id = layer_id, si_sfa_tensors = sfa, si_indexer = None, si_scale = None \<rparr>
               | Some [x] \<Rightarrow> Inr \<lparr> si_layer_id = layer_id, si_sfa_tensors = sfa, si_indexer = Some x, si_scale = None \<rparr>
               | Some _ \<Rightarrow> Inl (ValueError ''layer must have one Indexer tensor''))))"

definition sfa_sizes :: "si_layer \<Rightarrow> int list" where
  "sfa_sizes layer = map ti_bytes_per_block (si_sfa_tensors layer)"

definition build_cuda_layout :: "layout_config \<Rightarrow> role_tensors \<Rightarrow> kv_layout res" where
  "build_cuda_layout C layer_tensors =
     (let row_layer_ids = sort (map fst layer_tensors)
      in if row_layer_ids = [] then Inl IndexError
         else
           bindR (mapR (cuda_layer layer_tensors) row_layer_ids) (\<lambda>layers.
             if \<exists>layer \<in> set layers. sfa_sizes layer \<noteq> sfa_sizes (hd layers)
             then Inl (ValueError ''layers must have the same Attention slots'')
             else
               let indexer_layers = List.map_filter si_indexer layers
               in if indexer_layers = [] then Inl (ValueError ''no independent Indexer layer'')
                  else
                    bindR (validate_uniform_sizes (map ti_bytes_per_block indexer_layers)) (\<lambda>indexer_size.
                    bindR (build_segment_rows C layers Bf16 indexer_size 0 0) (segment_rows_layout C))))"

definition ascend_layer :: "nat \<Rightarrow> nat \<Rightarrow> role_tensors \<Rightarrow> int \<Rightarrow> si_layer res" where
  "ascend_layer base_tensor_count max_extra_count layer_tensors layer_id =
     bindR (dict_get layer_tensors layer_id) (\<lambda>p.
       case p of (attention, separate_indexer) \<Rightarrow>
         (case attention of
            None \<Rightarrow> Inl (ValueError ''insufficient SFA base tensors'')
          | Some tensors \<Rightarrow>
              if length tensors < base_tensor_count then Inl (ValueError ''insufficient SFA base tensors'')
              else
                let legacy_extras = drop base_tensor_count tensors
                in if legacy_extras \<noteq> [] \<and> separate_indexer \<noteq> None
                   then Inl (ValueError ''both legacy and separate Indexer caches'')
                   else
                     let extras = (case separate_indexer of Some xs \<Rightarrow> xs | None \<Rightarrow> legacy_extras)
                     in if length extras > max_extra_count
                        then Inl (ValueError ''Unsupported Ascend Shared Indexer cache components'')
                        else Inr \<lparr> si_layer_id = layer_id, si_sfa_tensors = take base_tensor_count tensors,
                                   si_indexer = (if extras = [] then None else Some (extras ! 0)),
                                   si_scale = (if length extras = 2 then Some (extras ! 1) else None) \<rparr>))"

definition build_ascend_layout :: "layout_config \<Rightarrow> bool \<times> bool \<Rightarrow> role_tensors \<Rightarrow> kv_layout res" where
  "build_ascend_layout C c8_flags layer_tensors =
     (let base_tensor_count = (if fst c8_flags then 1 else 2);
          max_extra_count = (if snd c8_flags then 2 else 1)
      in if layer_tensors = [] then Inl (ValueError ''KV cache layout must contain at least one tensor'')
         else
           bindR (mapR (ascend_layer base_tensor_count max_extra_count layer_tensors)
                    (sort (map fst layer_tensors))) (\<lambda>layers.
             if \<exists>layer \<in> set layers. sfa_sizes layer \<noteq> sfa_sizes (hd layers)
             then Inl (ValueError ''layers must have identical SFA base tensors'')
             else
               let c8_layers = filter (\<lambda>l. si_scale l \<noteq> None) layers;
                   bf16_layers = filter (\<lambda>l. si_indexer l \<noteq> None \<and> si_scale l = None) layers
               in if c8_layers = [] \<and> bf16_layers = [] then Inl (ValueError ''no full Indexer layer'')
                  else
                    bindR (if c8_layers = [] then Inr (0, 0)
                           else bindR (validate_uniform_sizes (map ti_bytes_per_block (List.map_filter si_indexer c8_layers)))
                                  (\<lambda>chunk. bindR (validate_uniform_sizes (map ti_bytes_per_block (List.map_filter si_scale c8_layers)))
                                  (\<lambda>scale. Inr (chunk, scale)))) (\<lambda>sizes.
                    case sizes of (index_chunk_size, scale_size) \<Rightarrow>
                      if c8_layers \<noteq> []
                      then bindR (build_segment_rows C layers (if bf16_layers \<noteq> [] then Mixed else LiC8)
                                    0 index_chunk_size scale_size) (segment_rows_layout C)
                      else bindR (validate_uniform_sizes (map ti_bytes_per_block (List.map_filter si_indexer bf16_layers)))
                             (\<lambda>indexer_size.
                                bindR (build_segment_rows C layers Bf16 indexer_size index_chunk_size scale_size)
                                  (segment_rows_layout C)))))"

definition init_shared_indexer_layout ::
  "(string \<Rightarrow> int res) \<Rightarrow> layout_config \<Rightarrow> bool \<Rightarrow> bool \<times> bool \<Rightarrow> kv_caches \<Rightarrow> kv_layout res" where
  "init_shared_indexer_layout extract_layer_index C on_cuda c8_flags kvcaches =
     (if lc_pp_size C > 1 \<and> lc_num_hidden_layers C \<le> 0
      then Inl (ValueError ''num_hidden_layers must be > 0 when pp_size > 1'')
      else
        bindR (layer_ids extract_layer_index kvcaches) (\<lambda>name_to_id.
          case name_to_id of
            [] \<Rightarrow> Inl (OtherException ''StopIteration'')
          | (_, first_layer_id) # _ \<Rightarrow>
              if \<not> lc_use_layerwise C
              then bindR (collect_tensor_rows name_to_id first_layer_id kvcaches) (build_layout C)
              else bindR (collect_role_tensors name_to_id kvcaches [])
                     (if on_cuda then build_cuda_layout C else build_ascend_layout C c8_flags)))"

definition shared_indexer_supports :: "vllm_config \<Rightarrow> bool \<Rightarrow> string option \<Rightarrow> bool" where
  "shared_indexer_supports cfg use_layerwise device_type =
     (use_layerwise \<and> (device_type = Some ''npu'' \<or> device_type = Some ''cuda'') \<and>
      has_shared_indexer_layers cfg)"

section \<open>The slot schema\<close>

definition extra_sizes :: "layout_mode \<Rightarrow> int \<Rightarrow> int \<Rightarrow> int \<Rightarrow> int \<Rightarrow> int list" where
  "extra_sizes mode k indexer_size chunk scale_size =
     (case mode of
        Bf16 \<Rightarrow> [indexer_size * k]
      | LiC8 \<Rightarrow> [chunk * k, scale_size * k]
      | Mixed \<Rightarrow> [chunk * k, chunk * k, scale_size * k])"

text \<open>What the size checks establish of a layer before the rows are built.\<close>

definition layer_fits :: "layout_mode \<Rightarrow> int \<Rightarrow> int \<Rightarrow> int \<Rightarrow> si_layer \<Rightarrow> bool" where
  "layer_fits mode indexer_size chunk scale_size layer \<longleftrightarrow>
     (mode = Bf16 \<longrightarrow> (\<forall>x. si_indexer layer = Some x \<longrightarrow> ti_bytes_per_block x = indexer_size)) \<and>
     (mode = LiC8 \<longrightarrow> (\<forall>x. si_indexer layer = Some x \<longrightarrow> ti_bytes_per_block x = chunk)) \<and>
     (\<forall>y. si_scale layer = Some y \<longrightarrow> ti_bytes_per_block y = scale_size)"

text \<open>A model of two layers, the first with an indexer, for evaluation.\<close>

definition si_tensor :: "int \<Rightarrow> int \<Rightarrow> tensor" where
  "si_tensor ptr n = \<lparr> t_ptr = ptr, t_shape = [4, n], t_stride = [n, 1], t_elem = 1 \<rparr>"

definition si_caches :: kv_caches where
  "si_caches =
     [(''a'', TupleLayer [TensorPart (si_tensor 4096 8), TensorPart (si_tensor 8192 8)]),
      (''a.indexer'', TensorLayer (si_tensor 12288 4)),
      (''b'', TupleLayer [TensorPart (si_tensor 16384 8), TensorPart (si_tensor 20480 8)])]"

definition si_index :: "string \<Rightarrow> int res" where
  "si_index name = (if name = ''b'' then Inr 1 else Inr 0)"

definition si_config :: layout_config where
  "si_config = \<lparr> lc_use_layerwise = True, lc_num_blocks = 4, lc_pp_size = 1, lc_num_hidden_layers = 2,
     lc_dcp_size = None, lc_speculative_mtp = False, lc_n_predict = None \<rparr>"

definition si_info :: "int \<Rightarrow> int \<Rightarrow> tensor_info" where
  "si_info ptr n =
     \<lparr> ti_ptr = ptr, ti_bytes_per_block = n, ti_buffer_size = 4 * n, ti_block_stride = n, ti_physical_blocks = 4 \<rparr>"

definition si_roles :: role_tensors where
  "si_roles = [(0, Some [si_info 4096 8, si_info 8192 8], Some [si_info 12288 4]),
               (1, Some [si_info 16384 8, si_info 20480 8], None)]"

definition si_table :: kv_layout where
  "si_table =
     \<lparr> lay_layerwise = True, lay_pp_size = 1, lay_num_layers = 2,
       base_ptrs = [[4096, 8192, 12288], [16384, 20480, 0]], buffer_sizes = [[32, 32, 16], [32, 32, 0]],
       tensor_size_lists = [[8, 8, 4], [8, 8, 4]], block_stride_lists = [[8, 8, 4], [8, 8, 0]] \<rparr>"

section \<open>Facts\<close>

lemma replicate_segment_simps [simp]:
  "seg_copy_size (replicate_segment rep k seg) = seg_copy_size seg * (if rep then k else 1)"
  "seg_ptr (replicate_segment rep k seg) = seg_ptr seg"
  "seg_block_stride (replicate_segment rep k seg) = seg_block_stride seg * (if rep then k else 1)"
  "seg_buffer_size (replicate_segment rep k seg) = seg_buffer_size seg"
  by (simp_all add: replicate_segment_def)

lemma segment_simps [simp]:
  "seg_copy_size (ghost_segment n) = n" "seg_ptr (ghost_segment n) = 0" "seg_block_stride (ghost_segment n) = 0"
  "seg_copy_size (whole_tensor_segment x) = ti_bytes_per_block x" "seg_ptr (whole_tensor_segment x) = ti_ptr x"
  "seg_block_stride (whole_tensor_segment x) = ti_block_stride x"
  by (simp_all add: ghost_segment_def whole_tensor_segment_def)

lemma row_extras_sizes:
  assumes "row_extras mode rep dcp isz chunk ssz layer = Inr segs" "layer_fits mode isz chunk ssz layer"
  shows "map seg_copy_size segs = extra_sizes mode (if rep then dcp else 1) isz chunk ssz"
proof (cases mode)
  case Bf16
  with assms show ?thesis
    by (auto simp: row_extras_def extra_sizes_def layer_fits_def Let_def split: option.splits)
next
  case LiC8
  with assms show ?thesis
    by (auto simp: row_extras_def extra_sizes_def layer_fits_def Let_def split: option.splits)
next
  case Mixed
  with assms show ?thesis
    by (auto simp: row_extras_def extra_sizes_def layer_fits_def Let_def split: option.splits if_splits)
qed

lemma build_segment_rows_sizes:
  assumes "build_segment_rows C layers mode isz chunk ssz = Inr rows"
    and "\<forall>layer \<in> set layers. layer_fits mode isz chunk ssz layer \<and> sfa_sizes layer = base"
  shows "\<exists>k. map (map seg_copy_size) rows = replicate (length layers) (base @ extra_sizes mode k isz chunk ssz)"
proof -
  from assms(1) obtain rep where m: "mapR (\<lambda>layer.
      bindR (row_extras mode rep (dcp_of C) isz chunk ssz layer)
        (\<lambda>extras. Inr (map whole_tensor_segment (si_sfa_tensors layer) @ extras))) layers = Inr rows"
    by (auto simp: build_segment_rows_def bindR_eq_Inr)
  let ?k = "if rep then dcp_of C else 1"
  have "map seg_copy_size (rows ! i) = base @ extra_sizes mode ?k isz chunk ssz" if "i < length layers" for i
  proof -
    from mapR_nth [OF m that] obtain extras where "row_extras mode rep (dcp_of C) isz chunk ssz (layers ! i) = Inr extras"
      "rows ! i = map whole_tensor_segment (si_sfa_tensors (layers ! i)) @ extras"
      by (auto simp: bindR_eq_Inr)
    with row_extras_sizes [OF this(1)] assms(2) that show ?thesis
      by (auto simp: sfa_sizes_def comp_def)
  qed
  with mapR_length [OF m] show ?thesis
    by (intro exI [of _ ?k] nth_equalityI) simp_all
qed

lemma segment_layout_uniform:
  assumes "segment_rows_layout C rows = Inr L" "map (map seg_copy_size) rows = replicate (Suc n) r"
  shows "uniform_rows L"
proof -
  from assms(1) have m: "mapR (mapR (\<lambda>seg. to_u64 (seg_copy_size seg))) rows = Inr (tensor_size_lists L)"
    by (auto simp: segment_rows_layout_def bindR_eq_Inr split: if_splits)
  have eq: "mapR (\<lambda>seg. to_u64 (seg_copy_size seg)) row = mapR to_u64 (map seg_copy_size row)" for row
    by (simp add: mapR_map)
  have len: "length rows = Suc n" using arg_cong [OF assms(2), of length] by simp
  have row: "map seg_copy_size row = r" if "row \<in> set rows" for row
  proof -
    have "map seg_copy_size row \<in> set (replicate (Suc n) r)" unfolding assms(2) [symmetric] using that by simp
    then show ?thesis by (metis in_set_replicate)
  qed
  obtain w where w: "mapR to_u64 r = Inr w"
  proof -
    have "hd rows \<in> set rows" using len by (cases rows) simp_all
    moreover from this have "\<exists>w. mapR (\<lambda>seg. to_u64 (seg_copy_size seg)) (hd rows) = Inr w"
      using m len by (cases rows) (auto split: sum.splits)
    ultimately show thesis using that row unfolding eq by metis
  qed
  have "tensor_size_lists L = replicate (length rows) w"
    by (rule mapR_replicate [OF m]) (simp add: eq row w)
  then show ?thesis unfolding len by (rule uniform_rowsI)
qed

lemma validate_uniform_InrD: "validate_uniform_sizes vs = Inr v \<Longrightarrow> x \<in> set vs \<Longrightarrow> x = v"
proof -
  assume "validate_uniform_sizes vs = Inr v" "x \<in> set vs"
  then have "sort (remdups vs) = [v]"
    unfolding validate_uniform_sizes_def by (auto split: list.splits)
  then have "set vs = {v}" by (metis list.set(1) list.set(2) set_remdups set_sort)
  with \<open>x \<in> set vs\<close> show "x = v" by simp
qed

lemma in_map_filter: "x \<in> set xs \<Longrightarrow> f x = Some y \<Longrightarrow> y \<in> set (List.map_filter f xs)"
  by (auto simp: List.map_filter_def image_iff intro!: bexI [of _ x])

lemma cuda_layer_scale: "cuda_layer rt i = Inr layer \<Longrightarrow> si_scale layer = None"
  unfolding cuda_layer_def bindR_def
  by (auto split: sum.splits prod.splits option.splits list.splits)

lemma ascend_layer_scale: "ascend_layer a b rt i = Inr layer \<Longrightarrow> si_scale layer \<noteq> None \<Longrightarrow> si_indexer layer \<noteq> None"
  unfolding ascend_layer_def bindR_def Let_def
  by (auto split: sum.splits prod.splits option.splits if_splits)

lemma build_cuda_layout_rows:
  assumes "build_cuda_layout C rt = Inr L"
  shows "\<exists>layers base isz rows.
    mapR (cuda_layer rt) (sort (map fst rt)) = Inr layers \<and> layers \<noteq> [] \<and>
    (\<forall>layer \<in> set layers. layer_fits Bf16 isz 0 0 layer \<and> sfa_sizes layer = base) \<and>
    build_segment_rows C layers Bf16 isz 0 0 = Inr rows \<and> segment_rows_layout C rows = Inr L"
proof -
  let ?ids = "sort (map fst rt)"
  from assms have ne: "?ids \<noteq> []" unfolding build_cuda_layout_def Let_def by (auto split: if_splits)
  then obtain layers where l: "mapR (cuda_layer rt) ?ids = Inr layers"
    using assms unfolding build_cuda_layout_def Let_def by (auto simp: bindR_eq_Inr)
  with assms ne have same: "\<not> (\<exists>layer \<in> set layers. sfa_sizes layer \<noteq> sfa_sizes (hd layers))"
    unfolding build_cuda_layout_def Let_def by (simp split: if_splits)
  with assms ne l obtain isz rows where
    isz: "validate_uniform_sizes (map ti_bytes_per_block (List.map_filter si_indexer layers)) = Inr isz"
    and rows: "build_segment_rows C layers Bf16 isz 0 0 = Inr rows" "segment_rows_layout C rows = Inr L"
    unfolding build_cuda_layout_def Let_def by (auto simp: bindR_eq_Inr split: if_splits)
  have ne': "layers \<noteq> []" using mapR_length [OF l] ne by auto
  have fits: "layer_fits Bf16 isz 0 0 layer" if layer: "layer \<in> set layers" for layer
  proof -
    have "si_scale layer = None" using mapR_set [OF l layer] cuda_layer_scale by blast
    moreover have "ti_bytes_per_block x = isz" if x: "si_indexer layer = Some x" for x
      using validate_uniform_InrD [OF isz] in_map_filter [of layer layers si_indexer x] layer x by simp
    ultimately show ?thesis by (simp add: layer_fits_def)
  qed
  have "\<forall>layer \<in> set layers. layer_fits Bf16 isz 0 0 layer \<and> sfa_sizes layer = sfa_sizes (hd layers)"
    using fits same by blast
  with l ne' rows show ?thesis by blast
qed

lemma rows_uniform:
  assumes "layers \<noteq> []" "\<forall>layer \<in> set layers. layer_fits mode isz chunk ssz layer \<and> sfa_sizes layer = base"
    and "build_segment_rows C layers mode isz chunk ssz = Inr rows" "segment_rows_layout C rows = Inr L"
  shows "uniform_rows L"
proof -
  obtain n where n: "length layers = Suc n" using assms(1) by (cases layers) simp_all
  from build_segment_rows_sizes [OF assms(3,2)] obtain k where
    "map (map seg_copy_size) rows = replicate (Suc n) (base @ extra_sizes mode k isz chunk ssz)"
    unfolding n by blast
  then show ?thesis by (rule segment_layout_uniform [OF assms(4)])
qed

lemma build_cuda_layout_uniform: "build_cuda_layout C rt = Inr L \<Longrightarrow> uniform_rows L"
  using build_cuda_layout_rows rows_uniform by blast

lemma ascend_sizes_fit:
  assumes "\<And>layer. layer \<in> set layers \<Longrightarrow> si_scale layer \<noteq> None \<Longrightarrow> si_indexer layer \<noteq> None"
    and c8: "c8 = filter (\<lambda>l. si_scale l \<noteq> None) layers"
    and bf16: "bf16 = filter (\<lambda>l. si_indexer l \<noteq> None \<and> si_scale l = None) layers"
    and chunk: "c8 \<noteq> [] \<Longrightarrow> validate_uniform_sizes (map ti_bytes_per_block (List.map_filter si_indexer c8)) = Inr chunk"
    and scale: "c8 \<noteq> [] \<Longrightarrow> validate_uniform_sizes (map ti_bytes_per_block (List.map_filter si_scale c8)) = Inr ssz"
    and isz: "c8 = [] \<Longrightarrow> validate_uniform_sizes (map ti_bytes_per_block (List.map_filter si_indexer bf16)) = Inr isz"
    and "layer \<in> set layers"
  shows "layer_fits (if c8 \<noteq> [] then if bf16 \<noteq> [] then Mixed else LiC8 else Bf16) isz chunk ssz layer"
proof -
  have y: "ti_bytes_per_block y = ssz" if "si_scale layer = Some y" for y
  proof -
    have "layer \<in> set c8" using that assms(7) by (simp add: c8)
    moreover from this have "c8 \<noteq> []" by auto
    ultimately show ?thesis using validate_uniform_InrD [OF scale] in_map_filter [of layer c8 si_scale y] that by simp
  qed
  have x8: "ti_bytes_per_block x = chunk" if "c8 \<noteq> []" "bf16 = []" "si_indexer layer = Some x" for x
  proof -
    have "layer \<in> set c8"
    proof (rule ccontr)
      assume "layer \<notin> set c8"
      then have "layer \<in> set bf16" using that(3) assms(7) by (simp add: c8 bf16)
      with that(2) show False by simp
    qed
    then show ?thesis using validate_uniform_InrD [OF chunk] in_map_filter [of layer c8 si_indexer x] that by simp
  qed
  have x16: "ti_bytes_per_block x = isz" if "c8 = []" "si_indexer layer = Some x" for x
  proof -
    have "si_scale layer = None" using that(1) assms(7) by (auto simp: c8 filter_empty_conv)
    then have "layer \<in> set bf16" using that(2) assms(7) by (simp add: bf16)
    then show ?thesis using validate_uniform_InrD [OF isz] in_map_filter [of layer bf16 si_indexer x] that by simp
  qed
  show ?thesis using x8 x16 y by (cases "c8 = []"; cases "bf16 = []") (simp_all add: layer_fits_def)
qed

lemma build_ascend_layout_rows:
  assumes "build_ascend_layout C flags rt = Inr L"
  shows "\<exists>a b layers base mode isz chunk ssz rows.
    mapR (ascend_layer a b rt) (sort (map fst rt)) = Inr layers \<and> layers \<noteq> [] \<and>
    (\<forall>layer \<in> set layers. layer_fits mode isz chunk ssz layer \<and> sfa_sizes layer = base) \<and>
    build_segment_rows C layers mode isz chunk ssz = Inr rows \<and> segment_rows_layout C rows = Inr L"
proof -
  define a b where "a = (if fst flags then 1 else 2 :: nat)" and "b = (if snd flags then 2 else 1 :: nat)"
  from assms have ne: "rt \<noteq> []" by (auto simp: build_ascend_layout_def Let_def)
  then obtain layers where l: "mapR (ascend_layer a b rt) (sort (map fst rt)) = Inr layers"
    using assms by (auto simp: build_ascend_layout_def Let_def bindR_eq_Inr a_def b_def)
  define c8 bf16 where c8: "c8 = filter (\<lambda>l. si_scale l \<noteq> None) layers"
    and bf16: "bf16 = filter (\<lambda>l. si_indexer l \<noteq> None \<and> si_scale l = None) layers"
  note run = assms [unfolded build_ascend_layout_def Let_def a_def [symmetric] b_def [symmetric] l bindR_simps
      c8 [symmetric] bf16 [symmetric]]
  from run ne have same: "\<not> (\<exists>layer \<in> set layers. sfa_sizes layer \<noteq> sfa_sizes (hd layers))"
    by (simp split: if_splits)
  have "\<exists>isz chunk ssz rows.
    (c8 \<noteq> [] \<longrightarrow> validate_uniform_sizes (map ti_bytes_per_block (List.map_filter si_indexer c8)) = Inr chunk \<and>
      validate_uniform_sizes (map ti_bytes_per_block (List.map_filter si_scale c8)) = Inr ssz) \<and>
    (c8 = [] \<longrightarrow> validate_uniform_sizes (map ti_bytes_per_block (List.map_filter si_indexer bf16)) = Inr isz) \<and>
    build_segment_rows C layers (if c8 \<noteq> [] then if bf16 \<noteq> [] then Mixed else LiC8 else Bf16) isz chunk ssz = Inr rows \<and>
    segment_rows_layout C rows = Inr L"
    using run ne by (cases "c8 = []") (auto simp: bindR_eq_Inr split: if_splits)
  then obtain isz chunk ssz rows where sizes:
    "c8 \<noteq> [] \<Longrightarrow> validate_uniform_sizes (map ti_bytes_per_block (List.map_filter si_indexer c8)) = Inr chunk"
    "c8 \<noteq> [] \<Longrightarrow> validate_uniform_sizes (map ti_bytes_per_block (List.map_filter si_scale c8)) = Inr ssz"
    "c8 = [] \<Longrightarrow> validate_uniform_sizes (map ti_bytes_per_block (List.map_filter si_indexer bf16)) = Inr isz"
    and rows: "build_segment_rows C layers (if c8 \<noteq> [] then if bf16 \<noteq> [] then Mixed else LiC8 else Bf16) isz chunk ssz = Inr rows"
      "segment_rows_layout C rows = Inr L"
    by blast
  have full: "si_indexer layer \<noteq> None" if "layer \<in> set layers" "si_scale layer \<noteq> None" for layer
    using mapR_set [OF l that(1)] ascend_layer_scale that(2) by blast
  have "\<forall>layer \<in> set layers. layer_fits (if c8 \<noteq> [] then if bf16 \<noteq> [] then Mixed else LiC8 else Bf16) isz chunk ssz layer
      \<and> sfa_sizes layer = sfa_sizes (hd layers)"
    using ascend_sizes_fit [OF full c8 bf16 sizes] same by blast
  moreover have "layers \<noteq> []" using mapR_length [OF l] ne by auto
  ultimately show ?thesis using l rows by blast
qed

lemma build_ascend_layout_uniform: "build_ascend_layout C flags rt = Inr L \<Longrightarrow> uniform_rows L"
  using build_ascend_layout_rows rows_uniform by blast

interpretation cuda_schema: row_schema "build_cuda_layout C" for C
  by unfold_locales (rule build_cuda_layout_uniform)

interpretation ascend_schema: row_schema "build_ascend_layout C flags" for C flags
  by unfold_locales (rule build_ascend_layout_uniform)

text \<open>A layer without an indexer: its extra segments are ghosts.\<close>

lemma row_extras_ghost:
  assumes "row_extras mode rep dcp isz chunk ssz layer = Inr segs" "si_indexer layer = None" "si_scale layer = None"
    and "seg \<in> set segs"
  shows "seg_ptr seg = 0 \<and> seg_block_stride seg = 0"
  using assms by (cases mode) (auto simp: row_extras_def Let_def)

lemma segment_layout_nth:
  assumes "segment_rows_layout C rows = Inr L" "r < length rows" "c < length (rows ! r)"
  shows "to_u64 (seg_ptr (rows ! r ! c)) = Inr (base_ptrs L ! r ! c)"
    "to_u64 (seg_copy_size (rows ! r ! c)) = Inr (tensor_size_lists L ! r ! c)"
    "to_u64 (seg_block_stride (rows ! r ! c)) = Inr (block_stride_lists L ! r ! c)"
proof -
  have m: "mapR (mapR (\<lambda>seg. to_u64 (seg_ptr seg))) rows = Inr (base_ptrs L)"
    "mapR (mapR (\<lambda>seg. to_u64 (seg_copy_size seg))) rows = Inr (tensor_size_lists L)"
    "mapR (mapR (\<lambda>seg. to_u64 (seg_block_stride seg))) rows = Inr (block_stride_lists L)"
    using assms(1) by (auto simp: segment_rows_layout_def bindR_eq_Inr split: if_splits)
  show "to_u64 (seg_ptr (rows ! r ! c)) = Inr (base_ptrs L ! r ! c)"
    "to_u64 (seg_copy_size (rows ! r ! c)) = Inr (tensor_size_lists L ! r ! c)"
    "to_u64 (seg_block_stride (rows ! r ! c)) = Inr (block_stride_lists L ! r ! c)"
    using mapR_nth [OF mapR_nth [OF m(1) assms(2)] assms(3)] mapR_nth [OF mapR_nth [OF m(2) assms(2)] assms(3)]
      mapR_nth [OF mapR_nth [OF m(3) assms(2)] assms(3)] by simp_all
qed

lemma ghost_address: "to_u64 0 = Inr p \<Longrightarrow> to_u64 0 = Inr s \<Longrightarrow> block_addr w s p = 0"
  by (simp add: to_u64_def block_addr_def)

lemma init_shared_builds:
  assumes "init_shared_indexer_layout f C on_cuda flags kvcaches = Inr L" "lc_use_layerwise C"
  shows "\<exists>rt. build_cuda_layout C rt = Inr L \<or> build_ascend_layout C flags rt = Inr L"
proof -
  from assms(1) obtain ids where "layer_ids f kvcaches = Inr ids"
    unfolding init_shared_indexer_layout_def by (auto simp: bindR_eq_Inr split: if_splits)
  with assms obtain rt where "(if on_cuda then build_cuda_layout C else build_ascend_layout C flags) rt = Inr L"
    unfolding init_shared_indexer_layout_def by (cases ids) (auto simp: bindR_eq_Inr split: if_splits)
  then show ?thesis by (auto split: if_splits)
qed

text \<open>The row of a layer is its attention segments followed by its extras.\<close>

lemma build_segment_rows_nth:
  assumes "build_segment_rows C layers mode isz chunk ssz = Inr rows" "r < length layers"
  shows "\<exists>rep extras. row_extras mode rep (dcp_of C) isz chunk ssz (layers ! r) = Inr extras \<and>
    rows ! r = map whole_tensor_segment (si_sfa_tensors (layers ! r)) @ extras \<and> length rows = length layers"
proof -
  from assms(1) obtain rep where m: "mapR (\<lambda>layer.
      bindR (row_extras mode rep (dcp_of C) isz chunk ssz layer)
        (\<lambda>extras. Inr (map whole_tensor_segment (si_sfa_tensors layer) @ extras))) layers = Inr rows"
    by (auto simp: build_segment_rows_def bindR_eq_Inr)
  from mapR_nth [OF m assms(2)] obtain extras where
    "row_extras mode rep (dcp_of C) isz chunk ssz (layers ! r) = Inr extras"
    "rows ! r = map whole_tensor_segment (si_sfa_tensors (layers ! r)) @ extras"
    by (auto simp: bindR_eq_Inr)
  with mapR_length [OF m] show ?thesis by blast
qed

lemma ghost_cells:
  assumes "build_segment_rows C layers mode isz chunk ssz = Inr rows" "segment_rows_layout C rows = Inr L"
    and "r < length layers" "si_indexer (layers ! r) = None" "si_scale (layers ! r) = None"
    and "length (si_sfa_tensors (layers ! r)) \<le> c" "c < length (base_ptrs L ! r)"
  shows "block_addr w (block_stride_lists L ! r ! c) (base_ptrs L ! r ! c) = 0"
proof -
  let ?n = "length (si_sfa_tensors (layers ! r))"
  obtain rep extras where e: "row_extras mode rep (dcp_of C) isz chunk ssz (layers ! r) = Inr extras"
    "rows ! r = map whole_tensor_segment (si_sfa_tensors (layers ! r)) @ extras" "length rows = length layers"
    using build_segment_rows_nth [OF assms(1,3)] by blast
  have m: "mapR (mapR (\<lambda>seg. to_u64 (seg_ptr seg))) rows = Inr (base_ptrs L)"
    using assms(2) by (auto simp: segment_rows_layout_def bindR_eq_Inr split: if_splits)
  have r: "r < length rows" using e(3) assms(3) by simp
  have c: "c < length (rows ! r)" using mapR_length [OF mapR_nth [OF m r]] assms(7) by simp
  then have "rows ! r ! c = extras ! (c - ?n)" "c - ?n < length extras"
    using e(2) assms(6) by (simp_all add: nth_append)
  then have "seg_ptr (rows ! r ! c) = 0" "seg_block_stride (rows ! r ! c) = 0"
    using row_extras_ghost [OF e(1) assms(4,5), of "rows ! r ! c"] by simp_all
  with segment_layout_nth(1,3) [OF assms(2) r c] show ?thesis by (simp add: ghost_address)
qed

text \<open>The model of two layers, evaluated.\<close>

lemma si_tensor_info: "0 < n \<Longrightarrow> handle_tensor (si_tensor ptr n) = Inr (si_info ptr n)"
  by (simp add: handle_tensor_def si_tensor_def si_info_def packing_def Let_def)

lemma si_cache_roles: "cache_role ''a'' = Attention" "cache_role ''a.indexer'' = Indexer" "cache_role ''b'' = Attention"
  by (simp_all add: cache_role_def lower_def lower_char_def indexer_component_def)

lemma si_collected:
  "collect_role_tensors [(''a'', 0), (''a.indexer'', 0), (''b'', 1)] si_caches [] = Inr si_roles"
  by (simp add: si_caches_def si_roles_def si_cache_roles dict_get_def tensor_infos_def component_infos_def
      si_tensor_info role_slot_def set_role_slot_def) (simp add: si_tensor_def si_tensor_info [unfolded si_tensor_def])

lemma si_built: "build_ascend_layout si_config (False, False) si_roles = Inr si_table"
  by (simp add: build_ascend_layout_def si_roles_def ascend_layer_def dict_get_def sfa_sizes_def si_info_def
      validate_uniform_sizes_def List.map_filter_def build_segment_rows_def indexer_replicated_def dcp_of_def
      row_extras_def replicate_segment_def ghost_segment_def whole_tensor_segment_def segment_rows_layout_def
      to_u64_def si_config_def num_mtp_layers_def si_table_def)

lemma si_init: "init_shared_indexer_layout si_index si_config False (False, False) si_caches = Inr si_table"
proof -
  have "layer_ids si_index si_caches = Inr [(''a'', 0), (''a.indexer'', 0), (''b'', 1)]"
    by (simp add: layer_ids_def si_caches_def si_index_def)
  with si_collected si_built show ?thesis
    by (simp add: init_shared_indexer_layout_def si_config_def)
qed

section \<open>Properties\<close>

text \<open>
  C22: every layer of a shared-indexer block is one shard of the same shape. Whenever the
  layout is built (CUDA or Ascend, BF16, C8 or mixed, replicated or not), all rows have the
  slot sizes that the store is told once, and without pipeline parallelism the block the
  store allocates is exactly the number of layers times the shard.
\<close>

theorem shared_indexer_block_is_whole_shards:
  assumes "lc_use_layerwise C" "lc_pp_size C \<le> 1"
    and "init_shared_indexer_layout extract_layer_index C on_cuda c8_flags kvcaches = Inr L"
    and "sum_list (map uint (concat (tensor_size_lists L))) < 2 ^ 64"
  shows "(\<forall>row \<in> set (tensor_size_lists L). row = tensor_size_list L) \<and>
    block_size L = Inr (int (length (tensor_size_lists L)) * shard_size L)"
proof -
  obtain rt where built: "build_cuda_layout C rt = Inr L \<or> build_ascend_layout C c8_flags rt = Inr L"
    using init_shared_builds [OF assms(3,1)] by blast
  have lay: "lay_layerwise L = lc_use_layerwise C \<and> lay_pp_size L = lc_pp_size C"
  proof -
    have "\<exists>rows. segment_rows_layout C rows = Inr L"
      using built build_cuda_layout_rows build_ascend_layout_rows by blast
    then show ?thesis by (auto simp: segment_rows_layout_def bindR_eq_Inr split: if_splits)
  qed
  with built assms cuda_schema.block_is_whole_shards cuda_schema.same_slots
    ascend_schema.block_is_whole_shards ascend_schema.same_slots show ?thesis by metis
qed

lemma shared_indexer_block_is_whole_shards_witness:
  "init_shared_indexer_layout si_index si_config False (False, False) si_caches = Inr si_table \<and>
   block_size si_table = Inr (2 * shard_size si_table)"
proof -
  have "block_size si_table = Inr (int (length (tensor_size_lists si_table)) * shard_size si_table)"
    using shared_indexer_block_is_whole_shards [OF _ _ si_init] by (simp add: si_config_def si_table_def)
  with si_init show ?thesis by (simp add: si_table_def)
qed

text \<open>
  C23: an absent cache is never addressed. In a layout built for Ascend, in every mode, the
  slots of a layer that has neither an indexer nor a scale cache compute the null address for
  every block (and the slot is never registered as a device buffer).
\<close>

theorem absent_indexer_stays_null:
  assumes "build_ascend_layout C c8_flags layer_tensors = Inr L"
    and "mapR (ascend_layer (if fst c8_flags then 1 else 2) (if snd c8_flags then 2 else 1) layer_tensors)
      (sort (map fst layer_tensors)) = Inr layers"
    and "r < length layers" "si_indexer (layers ! r) = None" "si_scale (layers ! r) = None"
    and "length (si_sfa_tensors (layers ! r)) \<le> c" "c < length (base_ptrs L ! r)"
  shows "block_addr w (block_stride_lists L ! r ! c) (base_ptrs L ! r ! c) = 0"
proof -
  from assms(1,2) obtain mode isz chunk ssz rows where
    "build_segment_rows C layers mode isz chunk ssz = Inr rows" "segment_rows_layout C rows = Inr L"
    by (auto simp: build_ascend_layout_def Let_def bindR_eq_Inr split: if_splits)
  from ghost_cells [OF this assms(3-7)] show ?thesis .
qed

lemma absent_indexer_stays_null_witness:
  "block_addr 3 (block_stride_lists si_table ! 1 ! 2) (base_ptrs si_table ! 1 ! 2) = 0"
proof -
  have "mapR (ascend_layer 2 1 si_roles) (sort (map fst si_roles)) =
    Inr [\<lparr> si_layer_id = 0, si_sfa_tensors = [si_info 4096 8, si_info 8192 8], si_indexer = Some (si_info 12288 4), si_scale = None \<rparr>,
         \<lparr> si_layer_id = 1, si_sfa_tensors = [si_info 16384 8, si_info 20480 8], si_indexer = None, si_scale = None \<rparr>]"
    by (simp add: si_roles_def ascend_layer_def dict_get_def)
  from absent_indexer_stays_null [OF si_built, of _ 1 2 3] this show ?thesis by (simp add: si_table_def)
qed



end
