(* ===== verification/MiniMax_Layout.thy ===== *)
theory MiniMax_Layout
  imports Shared_Indexer_Layout
begin

text \<open>
  \<open>MiniMaxM3KVCacheLayout\<close> (ucm_connector.py): the table for MiniMax M3, whose attention and
  indexer caches are separate block-first tensors. In layerwise mode dense layers get a ghost
  indexer slot; in direct mode only real segments are kept.
\<close>

section \<open>Segments of one entry\<close>

definition mm_is_indexer :: "string \<Rightarrow> bool" where
  "mm_is_indexer layer_name = (''index_cache'' \<in> set (dot_split (lower layer_name)))"

definition mm_segment :: "layout_config \<Rightarrow> tensor \<Rightarrow> segment res" where
  "mm_segment C x =
     (case t_shape x of
        [] \<Rightarrow> Inl IndexError
      | num_blocks # dims \<Rightarrow>
          if num_blocks < lc_num_blocks C
          then Inl (ValueError ''MiniMax M3 KV cache has fewer physical blocks than configured'')
          else
            let copy_size = prod_list dims * t_elem x
            in Inr \<lparr> seg_ptr = t_ptr x, seg_copy_size = copy_size, seg_block_stride = copy_size,
                     seg_buffer_size = num_blocks * copy_size \<rparr>)"

definition mm_attention_segments :: "layout_config \<Rightarrow> bool \<Rightarrow> kv_layer \<Rightarrow> segment list res" where
  "mm_attention_segments C on_cuda kv =
     (if on_cuda
      then (case kv of
              TensorLayer x \<Rightarrow>
                if length (t_shape x) = 5 \<and> t_shape x ! 1 \<noteq> 2
                then Inl (ValueError ''MiniMax M3 CUDA 5D KV cache must use [num_blocks, 2, ...]'')
                else if length (t_shape x) \<noteq> 4 \<and> length (t_shape x) \<noteq> 5
                then Inl (ValueError ''MiniMax M3 CUDA KV cache must be a block-first 4D or 5D tensor'')
                else mapR (mm_segment C) [x]
            | _ \<Rightarrow> Inl (TypeError ''Unsupported MiniMax M3 KV cache value''))
      else (case kv of
              TupleLayer parts \<Rightarrow>
                if length parts \<noteq> 2
                then Inl (ValueError ''MiniMax M3 Ascend KV cache must contain separate K and V tensors'')
                else mapR (\<lambda>part. case part of
                        OtherPart \<Rightarrow> Inl (TypeError ''Unsupported MiniMax M3 KV cache value'')
                      | TensorPart x \<Rightarrow>
                          if length (t_shape x) \<noteq> 4
                          then Inl (ValueError ''MiniMax M3 Ascend K and V caches must be 4D'')
                          else mm_segment C x) parts
            | _ \<Rightarrow> Inl (ValueError ''MiniMax M3 Ascend KV cache must contain separate K and V tensors'')))"

definition mm_indexer_tensor :: "layout_config \<Rightarrow> tensor \<Rightarrow> segment res" where
  "mm_indexer_tensor C x =
     (if length (t_shape x) \<noteq> 3 \<and> length (t_shape x) \<noteq> 4
      then Inl (ValueError ''MiniMax M3 Indexer cache must be a block-first 3D or 4D tensor'')
      else mm_segment C x)"

definition mm_indexer_segment :: "layout_config \<Rightarrow> bool \<Rightarrow> kv_layer \<Rightarrow> segment res" where
  "mm_indexer_segment C on_npu kv =
     (if on_npu
      then (case kv of
              TupleLayer [part] \<Rightarrow>
                (case part of
                   TensorPart x \<Rightarrow> mm_indexer_tensor C x
                 | OtherPart \<Rightarrow> Inl (TypeError ''Unsupported MiniMax M3 KV cache value''))
            | _ \<Rightarrow> Inl (ValueError ''MiniMax M3 Ascend Indexer cache must contain one tensor''))
      else (case kv of
              TensorLayer x \<Rightarrow> mm_indexer_tensor C x
            | _ \<Rightarrow> Inl (TypeError ''Unsupported MiniMax M3 KV cache value'')))"

section \<open>Layers and rows\<close>

type_synonym mm_layers = "(int \<times> (segment list option \<times> segment list option)) list"

fun mm_collect_layers ::
  "layout_config \<Rightarrow> bool \<Rightarrow> (string \<times> int) list \<Rightarrow> kv_caches \<Rightarrow> mm_layers \<Rightarrow> mm_layers res" where
  "mm_collect_layers C on_cuda name_to_id [] layers = Inr layers"
| "mm_collect_layers C on_cuda name_to_id ((layer_name, kv) # rest) layers =
     bindR (dict_get name_to_id layer_name) (\<lambda>layer_id.
       let role = (if mm_is_indexer layer_name then Indexer else Attention);
           layer = (case map_of layers layer_id of None \<Rightarrow> (None, None) | Some l \<Rightarrow> l)
       in if role_slot role layer \<noteq> None then Inl (ValueError ''Duplicate MiniMax M3 cache'')
          else
            bindR (if role = Indexer
                   then bindR (mm_indexer_segment C (\<not> on_cuda) kv) (\<lambda>seg. Inr [seg])
                   else mm_attention_segments C on_cuda kv) (\<lambda>segs.
              mm_collect_layers C on_cuda name_to_id rest
                (AList.update layer_id (set_role_slot role (Some segs) layer) layers)))"

definition mm_layer :: "mm_layers \<Rightarrow> int \<Rightarrow> (segment list \<times> segment option) res" where
  "mm_layer collected layer_id =
     bindR (dict_get collected layer_id) (\<lambda>p.
       case p of (attention, indexer) \<Rightarrow>
         (case attention of
            None \<Rightarrow> Inl (ValueError ''MiniMax M3 layer has no Attention KV cache'')
          | Some [] \<Rightarrow> Inl (ValueError ''MiniMax M3 layer has no Attention KV cache'')
          | Some segs \<Rightarrow>
              Inr (segs, case indexer of Some (x # _) \<Rightarrow> Some x | _ \<Rightarrow> None)))"

definition mm_rows :: "layout_config \<Rightarrow> (segment list \<times> segment option) list \<Rightarrow> segment list list res" where
  "mm_rows C layers =
     (if \<exists>l \<in> set layers. map seg_copy_size (fst l) \<noteq> map seg_copy_size (fst (hd layers))
      then Inl (ValueError ''MiniMax M3 layers use incompatible Attention layouts'')
      else
        let indexers = List.map_filter snd layers
        in if indexers = []
           then if lc_use_layerwise C
                then Inl (ValueError ''MiniMax M3 KV cache layout did not find an Indexer cache'')
                else Inr (map fst layers)
           else if \<exists>x \<in> set indexers. seg_copy_size x \<noteq> seg_copy_size (hd indexers)
           then Inl (ValueError ''MiniMax M3 Indexer block sizes differ'')
           else
             let indexer_size = seg_copy_size (hd indexers)
             in Inr (map (\<lambda>(attention, indexer).
                      attention @ [case indexer of Some x \<Rightarrow> x | None \<Rightarrow> ghost_segment indexer_size]) layers))"

definition mm_build_layout :: "layout_config \<Rightarrow> mm_layers \<Rightarrow> kv_layout res" where
  "mm_build_layout C collected =
     (let layer_ids = sort (map fst collected)
      in if layer_ids = [] then Inl (ValueError ''MiniMax M3 KV cache layout is empty'')
         else
           bindR (mapR (mm_layer collected) layer_ids) (\<lambda>layers.
           bindR (mm_rows C layers) (\<lambda>rows.
             if lc_use_layerwise C then segment_rows_layout C rows
             else segment_rows_layout C [filter (\<lambda>seg. seg_ptr seg \<noteq> 0) (concat rows)])))"

definition init_minimax_layout ::
  "(string \<Rightarrow> int res) \<Rightarrow> layout_config \<Rightarrow> bool \<Rightarrow> kv_caches \<Rightarrow> kv_layout res" where
  "init_minimax_layout extract_layer_index C on_cuda kvcaches =
     (if lc_pp_size C > 1 \<and> lc_num_hidden_layers C \<le> 0
      then Inl (ValueError ''num_hidden_layers must be > 0 when pp_size > 1'')
      else
        bindR (layer_ids extract_layer_index kvcaches) (\<lambda>name_to_id.
          if name_to_id = [] then Inl (OtherException ''StopIteration'')
          else bindR (mm_collect_layers C on_cuda name_to_id kvcaches []) (mm_build_layout C)))"

definition minimax_supports :: "vllm_config \<Rightarrow> string option \<Rightarrow> bool" where
  "minimax_supports cfg device_type =
     ((device_type = Some ''cuda'' \<or> device_type = Some ''npu'') \<and> is_minimax_m3 cfg)"

text \<open>
  What a real segment of the table promises: the configured blocks fit in its buffer.
\<close>

definition seg_room :: "layout_config \<Rightarrow> segment \<Rightarrow> bool" where
  "seg_room C seg \<longleftrightarrow>
     seg_block_stride seg = seg_copy_size seg \<and>
     (0 \<le> seg_copy_size seg \<longrightarrow> lc_num_blocks C * seg_copy_size seg \<le> seg_buffer_size seg)"

definition entry_ok :: "layout_config \<Rightarrow> segment list option \<Rightarrow> bool" where
  "entry_ok C e \<longleftrightarrow> (case e of None \<Rightarrow> True | Some segs \<Rightarrow> list_all (seg_room C) segs)"

text \<open>A sparse layer and a dense one, for evaluation.\<close>

definition mm_tensor :: "int \<Rightarrow> int list \<Rightarrow> tensor" where
  "mm_tensor ptr dims = \<lparr> t_ptr = ptr, t_shape = dims, t_stride = [], t_elem = 2 \<rparr>"

definition mm_caches :: kv_caches where
  "mm_caches =
     [(''a'', TensorLayer (mm_tensor 4096 [4, 2, 2, 2])),
      (''a.index_cache'', TensorLayer (mm_tensor 8192 [4, 2, 2])),
      (''b'', TensorLayer (mm_tensor 12288 [4, 2, 2, 2]))]"

definition mm_table :: kv_layout where
  "mm_table =
     \<lparr> lay_layerwise = True, lay_pp_size = 1, lay_num_layers = 2,
       base_ptrs = [[4096, 8192], [12288, 0]], buffer_sizes = [[64, 32], [64, 0]],
       tensor_size_lists = [[16, 8], [16, 8]], block_stride_lists = [[16, 8], [16, 0]] \<rparr>"

section \<open>Facts\<close>

lemma mm_segment_room: "mm_segment C x = Inr seg \<Longrightarrow> seg_room C seg"
  by (auto simp: mm_segment_def seg_room_def Let_def mult_right_mono split: list.splits if_splits)

lemma mapR_all: "mapR f xs = Inr ys \<Longrightarrow> (\<And>x y. f x = Inr y \<Longrightarrow> P y) \<Longrightarrow> list_all P ys"
  by (induction xs arbitrary: ys) (auto split: sum.splits)

lemma mm_attention_room: "mm_attention_segments C on_cuda kv = Inr segs \<Longrightarrow> list_all (seg_room C) segs"
  by (auto simp: mm_attention_segments_def mm_segment_room split: if_splits kv_layer.splits kv_component.splits sum.splits
      elim!: mapR_all)

lemma mm_indexer_room: "mm_indexer_segment C on_npu kv = Inr seg \<Longrightarrow> seg_room C seg"
  by (auto simp: mm_indexer_segment_def mm_indexer_tensor_def mm_segment_room
      split: if_splits kv_layer.splits list.splits kv_component.splits)

lemma set_role_slot_ok:
  "entry_ok C (fst p) \<Longrightarrow> entry_ok C (snd p) \<Longrightarrow> list_all (seg_room C) segs \<Longrightarrow>
   entry_ok C (fst (set_role_slot role (Some segs) p)) \<and> entry_ok C (snd (set_role_slot role (Some segs) p))"
  by (cases role) (simp_all add: set_role_slot_def entry_ok_def)

lemma mm_collect_room:
  assumes "mm_collect_layers C on_cuda ids kvcaches layers = Inr layers'"
    and "\<And>k p. map_of layers k = Some p \<Longrightarrow> entry_ok C (fst p) \<and> entry_ok C (snd p)"
    and "map_of layers' k = Some p"
  shows "entry_ok C (fst p) \<and> entry_ok C (snd p)"
  using assms
proof (induction C on_cuda ids kvcaches layers rule: mm_collect_layers.induct)
  case (2 C on_cuda ids name kv rest layers)
  let ?role = "if mm_is_indexer name then Indexer else Attention"
  from "2.prems"(1) obtain i where i: "dict_get ids name = Inr i"
    by (auto simp: bindR_eq_Inr)
  let ?layer = "case map_of layers i of None \<Rightarrow> (None, None) | Some l \<Rightarrow> l"
  from "2.prems"(1) i have free: "role_slot ?role ?layer = None"
    by (auto simp: Let_def split: if_splits)
  with "2.prems"(1) i obtain segs where segs:
    "(if ?role = Indexer then bindR (mm_indexer_segment C (\<not> on_cuda) kv) (\<lambda>seg. Inr [seg])
      else mm_attention_segments C on_cuda kv) = Inr segs"
    "mm_collect_layers C on_cuda ids rest (AList.update i (set_role_slot ?role (Some segs) ?layer) layers) = Inr layers'"
    by (auto simp: Let_def bindR_eq_Inr split: if_splits)
  have room: "list_all (seg_room C) segs"
    using segs(1) mm_indexer_room mm_attention_room by (auto simp: bindR_eq_Inr split: if_splits)
  have old: "entry_ok C (fst ?layer) \<and> entry_ok C (snd ?layer)"
  proof (cases "map_of layers i")
    case (Some q)
    with "2.prems"(2) [OF Some] show ?thesis by simp
  qed (simp add: entry_ok_def)
  show ?case
  proof (rule "2.IH" [OF i refl refl _ segs(1) segs(2) _ "2.prems"(3)])
    show "\<not> role_slot ?role ?layer \<noteq> None" using free by simp
    show "entry_ok C (fst q) \<and> entry_ok C (snd q)"
      if "map_of (AList.update i (set_role_slot ?role (Some segs) ?layer) layers) j = Some q" for j q
      using that set_role_slot_ok [OF conjunct1 [OF old] conjunct2 [OF old] room] "2.prems"(2)
      by (auto simp: map_of_update split: if_splits)
  qed
qed auto

lemma mm_layer_room:
  assumes "mm_layer collected i = Inr (att, idx)"
    and "\<And>k p. map_of collected k = Some p \<Longrightarrow> entry_ok C (fst p) \<and> entry_ok C (snd p)"
  shows "list_all (seg_room C) att \<and> (\<forall>x. idx = Some x \<longrightarrow> seg_room C x)"
proof -
  from assms(1) obtain p where p: "map_of collected i = Some p"
    by (auto simp: mm_layer_def dict_get_def bindR_eq_Inr split: option.splits)
  from assms(1) p assms(2) [OF p] show ?thesis
    by (cases p) (auto simp: mm_layer_def dict_get_def entry_ok_def split: option.splits list.splits)
qed

text \<open>Rows of a layerwise table: one schema, and every cell has room or is a ghost.\<close>

lemma mm_rows_uniform:
  assumes "mm_rows C layers = Inr rows" "lc_use_layerwise C"
  shows "\<exists>r. map (map seg_copy_size) rows = replicate (length layers) r"
proof -
  let ?xs = "List.map_filter snd layers"
  note run = assms(1) [unfolded mm_rows_def Let_def raise_if_eq_Inr]
  from run have same: "\<not> (\<exists>l \<in> set layers. map seg_copy_size (fst l) \<noteq> map seg_copy_size (fst (hd layers)))"
    by (rule conjunct1)
  from conjunct2 [OF run] assms(2) have
    xs: "\<not> (\<exists>x \<in> set ?xs. seg_copy_size x \<noteq> seg_copy_size (hd ?xs))" and
    rows: "rows = map (\<lambda>(attention, indexer). attention @
        [case indexer of Some x \<Rightarrow> x | None \<Rightarrow> ghost_segment (seg_copy_size (hd ?xs))]) layers"
    by (cases "?xs = []"; simp only: if_True if_False raise_if_eq_Inr; blast)+
  let ?r = "map seg_copy_size (fst (hd layers)) @ [seg_copy_size (hd ?xs)]"
  have "map seg_copy_size ((\<lambda>(attention, indexer). attention @
      [case indexer of Some x \<Rightarrow> x | None \<Rightarrow> ghost_segment (seg_copy_size (hd ?xs))]) l) = ?r" if "l \<in> set layers" for l
  proof -
    obtain att idx where l: "l = (att, idx)" by (cases l)
    have "map seg_copy_size (fst l) = map seg_copy_size (fst (hd layers))" using same that by blast
    moreover have "seg_copy_size x = seg_copy_size (hd ?xs)" if "idx = Some x" for x
    proof -
      have "x \<in> set ?xs" using \<open>l \<in> set layers\<close> that l by (intro in_map_filter [of l]) simp_all
      with xs show ?thesis by blast
    qed
    ultimately show ?thesis by (cases idx) (simp_all add: l)
  qed
  then have "map (map seg_copy_size) rows = map (\<lambda>_. ?r) layers" unfolding rows by simp
  then show ?thesis by (metis map_replicate_const)
qed

lemma mm_rows_room:
  assumes "mm_rows C layers = Inr rows" "row \<in> set rows" "seg \<in> set row"
    and "\<And>att idx. (att, idx) \<in> set layers \<Longrightarrow> list_all (seg_room C) att \<and> (\<forall>x. idx = Some x \<longrightarrow> seg_room C x)"
  shows "seg_room C seg \<or> (seg_ptr seg = 0 \<and> seg_block_stride seg = 0)"
proof -
  have "\<exists>att idx n. (att, idx) \<in> set layers \<and>
    (seg \<in> set att \<or> seg = (case idx of Some x \<Rightarrow> x | None \<Rightarrow> ghost_segment n))"
    using assms(1-3) unfolding mm_rows_def Let_def by (fastforce split: if_splits)
  then obtain att idx n where mem: "(att, idx) \<in> set layers"
    and seg: "seg \<in> set att \<or> seg = (case idx of Some x \<Rightarrow> x | None \<Rightarrow> ghost_segment n)" by blast
  from seg assms(4) [OF mem] show ?thesis by (cases idx) (auto simp: list_all_iff)
qed

lemma mm_build_layout_uniform:
  assumes "mm_build_layout C collected = Inr L" "lay_layerwise L"
  shows "uniform_rows L"
proof -
  from assms(1) obtain layers rows where l: "mapR (mm_layer collected) (sort (map fst collected)) = Inr layers"
    and ne: "sort (map fst collected) \<noteq> []" and rows: "mm_rows C layers = Inr rows"
    and L: "(if lc_use_layerwise C then segment_rows_layout C rows
      else segment_rows_layout C [filter (\<lambda>seg. seg_ptr seg \<noteq> 0) (concat rows)]) = Inr L"
    by (auto simp: mm_build_layout_def Let_def bindR_eq_Inr split: if_splits)
  have lw: "lc_use_layerwise C"
    using L assms(2) by (auto simp: segment_rows_layout_def bindR_eq_Inr split: if_splits)
  obtain n where n: "length layers = Suc n" using mapR_length [OF l] ne by (cases layers) auto
  from mm_rows_uniform [OF rows lw] obtain r where "map (map seg_copy_size) rows = replicate (Suc n) r"
    unfolding n by blast
  with L lw show ?thesis using segment_layout_uniform by simp
qed

interpretation minimax_schema: row_schema "mm_build_layout C" for C
  by unfold_locales (rule mm_build_layout_uniform)

lemma segment_layout_cells:
  assumes "segment_rows_layout C rows = Inr L" "r < length (base_ptrs L)" "c < length (base_ptrs L ! r)"
  shows "\<exists>seg. rows ! r ! c = seg \<and> rows ! r \<in> set rows \<and> seg \<in> set (rows ! r) \<and>
    uint (base_ptrs L ! r ! c) = seg_ptr seg \<and> uint (tensor_size_lists L ! r ! c) = seg_copy_size seg \<and>
    uint (block_stride_lists L ! r ! c) = seg_block_stride seg \<and> uint (buffer_sizes L ! r ! c) = seg_buffer_size seg"
proof -
  have m: "mapR (mapR (\<lambda>seg. to_u64 (seg_ptr seg))) rows = Inr (base_ptrs L)"
    "mapR (mapR (\<lambda>seg. to_u64 (seg_buffer_size seg))) rows = Inr (buffer_sizes L)"
    using assms(1) by (auto simp: segment_rows_layout_def bindR_eq_Inr split: if_splits)
  have r: "r < length rows" using mapR_length [OF m(1)] assms(2) by simp
  have c: "c < length (rows ! r)" using mapR_length [OF mapR_nth [OF m(1) r]] assms(3) by simp
  have "to_u64 (seg_buffer_size (rows ! r ! c)) = Inr (buffer_sizes L ! r ! c)"
    using mapR_nth [OF mapR_nth [OF m(2) r] c] .
  with segment_layout_nth [OF assms(1) r c] r c show ?thesis by (auto dest!: to_u64_InrD)
qed

lemma init_minimax_builds:
  assumes "init_minimax_layout f C on_cuda kvcaches = Inr L" "lc_use_layerwise C"
  shows "\<exists>layers rows collected. mm_build_layout C collected = Inr L \<and> mm_rows C layers = Inr rows \<and>
    segment_rows_layout C rows = Inr L \<and>
    (\<forall>att idx. (att, idx) \<in> set layers \<longrightarrow> list_all (seg_room C) att \<and> (\<forall>x. idx = Some x \<longrightarrow> seg_room C x))"
proof -
  from assms(1) obtain ids collected where
    col: "mm_collect_layers C on_cuda ids kvcaches [] = Inr collected" and L: "mm_build_layout C collected = Inr L"
    unfolding init_minimax_layout_def by (auto simp: bindR_eq_Inr split: if_splits)
  from L assms(2) obtain layers rows where l: "mapR (mm_layer collected) (sort (map fst collected)) = Inr layers"
    and rows: "mm_rows C layers = Inr rows" "segment_rows_layout C rows = Inr L"
    unfolding mm_build_layout_def Let_def by (auto simp: bindR_eq_Inr split: if_splits)
  have ok: "entry_ok C (fst p) \<and> entry_ok C (snd p)" if "map_of collected k = Some p" for k p
    using mm_collect_room [OF col _ that] by simp
  have "list_all (seg_room C) att \<and> (\<forall>x. idx = Some x \<longrightarrow> seg_room C x)" if mem: "(att, idx) \<in> set layers" for att idx
  proof -
    from mapR_set [OF l mem] obtain i where "mm_layer collected i = Inr (att, idx)" by blast
    from mm_layer_room [OF this] ok show ?thesis by blast
  qed
  with L rows show ?thesis by blast
qed

lemma mm_table_built:
  "init_minimax_layout (\<lambda>name. if name = ''b'' then Inr 1 else Inr 0) si_config True mm_caches = Inr mm_table"
proof -
  have roles: "mm_is_indexer ''a'' = False" "mm_is_indexer ''b'' = False" "mm_is_indexer ''a.index_cache'' = True"
    by (simp_all add: mm_is_indexer_def lower_def lower_char_def)
  show ?thesis
    by (simp add: init_minimax_layout_def layer_ids_def mm_caches_def roles dict_get_def role_slot_def set_role_slot_def
        mm_indexer_segment_def mm_indexer_tensor_def mm_attention_segments_def mm_segment_def mm_tensor_def
        mm_build_layout_def mm_layer_def mm_rows_def List.map_filter_def ghost_segment_def segment_rows_layout_def
        to_u64_def si_config_def num_mtp_layers_def mm_table_def)
qed

section \<open>Properties\<close>

text \<open>
  C25: a MiniMax M3 table is safe to transfer with. Every row of a layerwise table has the
  slot sizes told to the store; every cell is either a ghost (null pointer and zero stride)
  or a tightly packed tensor with room for every configured block, so that the 64-bit
  address of block \<open>b\<close> plus the copy size stays within the registered buffer.
\<close>

theorem minimax_layout_safe:
  assumes "lc_use_layerwise C" "init_minimax_layout extract_layer_index C on_cuda kvcaches = Inr L"
    and "r < length (base_ptrs L)" "c < length (base_ptrs L ! r)"
    and "uint (base_ptrs L ! r ! c) + uint (buffer_sizes L ! r ! c) < 2 ^ 64"
    and "to_u64 b = Inr w" "b < lc_num_blocks C"
  shows "uniform_rows L \<and>
    (base_ptrs L ! r ! c = 0 \<and> block_stride_lists L ! r ! c = 0 \<or>
     uint (base_ptrs L ! r ! c) \<le> uint (block_addr w (block_stride_lists L ! r ! c) (base_ptrs L ! r ! c)) \<and>
     uint (block_addr w (block_stride_lists L ! r ! c) (base_ptrs L ! r ! c)) + uint (tensor_size_lists L ! r ! c)
       \<le> uint (base_ptrs L ! r ! c) + uint (buffer_sizes L ! r ! c))"
proof -
  obtain layers rows collected where b: "mm_build_layout C collected = Inr L" "mm_rows C layers = Inr rows"
    "segment_rows_layout C rows = Inr L"
    "\<And>att idx. (att, idx) \<in> set layers \<Longrightarrow> list_all (seg_room C) att \<and> (\<forall>x. idx = Some x \<longrightarrow> seg_room C x)"
    using init_minimax_builds [OF assms(2,1)] by blast
  have lay: "lay_layerwise L" using b(3) assms(1) by (auto simp: segment_rows_layout_def bindR_eq_Inr split: if_splits)
  obtain seg where seg: "rows ! r \<in> set rows" "seg \<in> set (rows ! r)"
    "uint (base_ptrs L ! r ! c) = seg_ptr seg" "uint (tensor_size_lists L ! r ! c) = seg_copy_size seg"
    "uint (block_stride_lists L ! r ! c) = seg_block_stride seg" "uint (buffer_sizes L ! r ! c) = seg_buffer_size seg"
    using segment_layout_cells [OF b(3) assms(3,4)] by blast
  have w: "uint w = b" "0 \<le> b" using to_u64_InrD [OF assms(6)] by blast+
  from mm_rows_room [OF b(2) seg(1,2) b(4)] show ?thesis
  proof
    assume room: "seg_room C seg"
    let ?n = "seg_copy_size seg"
    have n: "0 \<le> ?n" using seg(4) uint_ge_0 by metis
    have s: "seg_block_stride seg = ?n" using room by (simp add: seg_room_def)
    have "(b + 1) * ?n \<le> lc_num_blocks C * ?n" using assms(7) n by (intro mult_right_mono) simp_all
    with room n have fit: "b * ?n + ?n \<le> seg_buffer_size seg" by (simp add: seg_room_def algebra_simps)
    with n assms(5) have "uint w * uint (block_stride_lists L ! r ! c) + uint (base_ptrs L ! r ! c) < 2 ^ 64"
      unfolding w(1) seg(3,5,6) s by linarith
    from block_addr_no_wrap [OF this] fit w n show ?thesis
      using minimax_schema.uniform [OF b(1) lay] by (simp add: seg(3-6) s)
  next
    assume "seg_ptr seg = 0 \<and> seg_block_stride seg = 0"
    with seg(3,5) minimax_schema.uniform [OF b(1) lay] show ?thesis by (simp add: uint_0_iff)
  qed
qed

lemma minimax_layout_safe_witness:
  "uniform_rows mm_table \<and>
   uint (block_addr 3 (block_stride_lists mm_table ! 1 ! 0) (base_ptrs mm_table ! 1 ! 0)) + 16 \<le> 12288 + 64"
  using minimax_layout_safe [OF _ mm_table_built, of 1 0 3 3]
  by (simp add: mm_table_def si_config_def to_u64_def)

end
