(* ===== verification/Store_Config.thy ===== *)
theory Store_Config
  imports Device MiniMax_Layout
begin

text \<open>
  What a connector hands to the store factory: transfer sizes aligned for direct I/O, the
  cache budget of a node split over its stores, NUMA placement (cache_config.py), the block
  size and the instance id handed from worker to scheduler through files in /dev/shm, the
  device buffers to register, and \<open>UCMDirectConnector._create_store\<close> that assembles them
  (ucm_connector.py).
\<close>

section \<open>Sizes\<close>



section \<open>The store's configuration dictionary\<close>




text \<open>
  The version symbol of the installed cache library: \<open>None\<close> when the library is missing,
  \<open>Some None\<close> when it has no version symbol.
\<close>

definition cache_core_version :: "int option option \<Rightarrow> int" where
  "cache_core_version library =
     (case library of None \<Rightarrow> 0 | Some None \<Rightarrow> 0 | Some (Some version) \<Rightarrow> version)"


section \<open>Capacity and placement\<close>







section \<open>Shared memory\<close>

text \<open>
  The host a process runs on. /dev/shm maps a file name to its content and modification
  time; \<open>h_removable\<close> is false for a file whose removal raises an \<open>OSError\<close> (which the code
  ignores), and \<open>h_shm_total\<close> is \<open>None\<close> when /dev/shm cannot be inspected.
\<close>

type_synonym shm = "(string \<times> string \<times> int) list"

record host =
  h_core_version :: int
  h_pid :: int
  h_ppid :: int
  h_now :: int
  h_removable :: "string \<Rightarrow> bool"
  h_shm_total :: "int option"
  h_numa_node :: "int option"
  h_rank_in_group :: int

definition clear_stale :: "host \<Rightarrow> string \<Rightarrow> shm \<Rightarrow> shm" where
  "clear_stale H pre files =
     filter (\<lambda>(f, _, mtime). \<not> (prefix pre f \<and> h_now H - mtime > 600 \<and> h_removable H f)) files"

definition write_and_replace :: "host \<Rightarrow> string \<Rightarrow> string \<Rightarrow> shm \<Rightarrow> shm" where
  "write_and_replace H file content files =
     (let tmp = file @ ''.tmp.'' @ str_of_int (h_pid H);
          written = AList.update tmp (content, h_now H) files
      in AList.update file (content, h_now H) (AList.delete tmp written))"

definition unique_id_file :: "string \<Rightarrow> int \<Rightarrow> string" where
  "unique_id_file pre pid = pre @ ''_uniqueid_'' @ str_of_int pid"

text \<open>\<open>uid\<close> is the identifier rank 0 generated and broadcast.\<close>

definition worker_generate_unique_id :: "host \<Rightarrow> string \<Rightarrow> string \<Rightarrow> shm \<Rightarrow> string \<times> shm" where
  "worker_generate_unique_id H pre uid files =
     (let cleared = (if h_rank_in_group H = 0 then clear_stale H (pre @ ''_uniqueid_'') files else files)
      in (uid, write_and_replace H (unique_id_file pre (h_ppid H)) uid cleared))"

fun read_unique_id :: "string \<Rightarrow> int list \<Rightarrow> shm \<Rightarrow> string res" where
  "read_unique_id pre [] files =
     Inl (RuntimeError ''scheduler-side UCM initialization failed: unique_id file not found'')"
| "read_unique_id pre (pid # pids) files =
     (case map_of files (unique_id_file pre pid) of
        None \<Rightarrow> read_unique_id pre pids files
      | Some (content, _) \<Rightarrow>
          if strip content \<noteq> [] then Inr (strip content) else read_unique_id pre pids files)"

definition scheduler_read_unique_id :: "host \<Rightarrow> string \<Rightarrow> shm \<Rightarrow> string res" where
  "scheduler_read_unique_id H pre files = read_unique_id pre [h_pid H, h_ppid H] files"

definition block_size_file :: "string \<Rightarrow> int \<Rightarrow> string" where
  "block_size_file store_suffix pid =
     ''ucm_blocksize_'' @ str_of_int pid @ (if store_suffix \<noteq> [] then ''_'' @ store_suffix else [])"

definition worker_publish_block_size :: "host \<Rightarrow> int \<Rightarrow> int \<Rightarrow> string \<Rightarrow> shm \<Rightarrow> shm" where
  "worker_publish_block_size H gc_size dp_rank store_suffix files =
     (if dp_rank \<noteq> 0 \<or> h_rank_in_group H \<noteq> 0 then files
      else write_and_replace H (block_size_file store_suffix (h_ppid H)) (str_of_int gc_size)
             (clear_stale H ''ucm_blocksize_'' files))"

fun read_block_size :: "string \<Rightarrow> int list \<Rightarrow> shm \<Rightarrow> int option" where
  "read_block_size store_suffix [] files = None"
| "read_block_size store_suffix (pid # pids) files =
     (case map_of files (block_size_file store_suffix pid) of
        None \<Rightarrow> read_block_size store_suffix pids files
      | Some (content, _) \<Rightarrow>
          (case py_int (strip content) of
             Inl _ \<Rightarrow> None
           | Inr found \<Rightarrow> if found \<le> 0 then None else Some found))"

definition scheduler_read_block_size :: "host \<Rightarrow> string \<Rightarrow> shm \<Rightarrow> int option" where
  "scheduler_read_block_size H store_suffix files = read_block_size store_suffix [h_pid H, h_ppid H] files"


section \<open>The connector's static part\<close>












section \<open>Choosing the layout\<close>


section \<open>Example values\<close>



definition example_host :: "int \<Rightarrow> int \<Rightarrow> host" where
  "example_host pid ppid =
     \<lparr> h_core_version = 0, h_pid = pid, h_ppid = ppid, h_now = 1000, h_removable = (\<lambda>f. True),
       h_shm_total = None, h_numa_node = None, h_rank_in_group = 0 \<rparr>"



section \<open>Facts about sizes\<close>















section \<open>Facts about shared memory\<close>

lemma map_of_write_and_replace:
  "map_of (write_and_replace H f c files) f = Some (c, h_now H)"
  "g \<noteq> f \<Longrightarrow> map_of files g = None \<Longrightarrow> map_of (write_and_replace H f c files) g = None"
  by (simp_all add: write_and_replace_def Let_def)

lemma clear_stale_None: "map_of files g = None \<Longrightarrow> map_of (clear_stale H pre files) g = None"
  by (auto simp: clear_stale_def map_of_eq_None_iff)

text \<open>A file written under one of two names, the first of which was free or is the same.\<close>

lemma written_file_found:
  assumes "ppid = pid1 \<or> ppid = pid2 \<and> map_of files (name pid1) = None"
  shows "map_of (write_and_replace H (name ppid) c files) (name pid1) = Some (c, h_now H) \<or>
    map_of (write_and_replace H (name ppid) c files) (name pid1) = None \<and>
    map_of (write_and_replace H (name ppid) c files) (name pid2) = Some (c, h_now H)"
  using assms map_of_write_and_replace by (cases "name pid1 = name ppid") auto

lemma read_back_block_size:
  "0 < n \<Longrightarrow> py_int (strip (str_of_int n)) = Inr n"
proof -
  assume "0 < n"
  then have "str_of_int n = str_of_nat (nat n)" by (simp add: str_of_int_def)
  moreover have "strip (str_of_nat (nat n)) = str_of_nat (nat n)"
    using str_of_nat_chars strip_no_space by blast
  ultimately show ?thesis using \<open>0 < n\<close> by (simp add: py_int_str_of_nat)
qed

section \<open>Facts about placement\<close>



section \<open>Properties\<close>







text \<open>
  C29: what a worker leaves in shared memory is what the scheduler reads. After rank 0 of the
  first data-parallel domain publishes its block size, and a worker its instance id, a
  scheduler that is the workers' parent (or a sibling whose own slot is empty) reads exactly
  those values, whatever other files are there and whichever stale ones were removed.
\<close>

theorem shm_handoff_round_trip:
  assumes "0 < n" "h_rank_in_group Wk = 0" "uid \<noteq> []" "\<forall>c \<in> set uid. \<not> is_space c"
    and "h_ppid Wk = h_pid Sc \<or> h_ppid Wk = h_ppid Sc \<and>
      map_of files (block_size_file suffix_text (h_pid Sc)) = None \<and>
      map_of files (unique_id_file pre (h_pid Sc)) = None"
  shows "scheduler_read_block_size Sc suffix_text (worker_publish_block_size Wk n 0 suffix_text files) = Some n \<and>
    scheduler_read_unique_id Sc pre (snd (worker_generate_unique_id Wk pre uid files)) = Inr uid"
proof
  show "scheduler_read_block_size Sc suffix_text (worker_publish_block_size Wk n 0 suffix_text files) = Some n"
    using written_file_found [of "h_ppid Wk" "h_pid Sc" "h_ppid Sc" "clear_stale Wk ''ucm_blocksize_'' files"
        "block_size_file suffix_text" Wk "str_of_int n"] assms(1,2,5) read_back_block_size [OF assms(1)]
    by (auto simp: scheduler_read_block_size_def worker_publish_block_size_def clear_stale_None)
next
  have "strip uid = uid" using assms(4) by (rule strip_no_space)
  then show "scheduler_read_unique_id Sc pre (snd (worker_generate_unique_id Wk pre uid files)) = Inr uid"
    using written_file_found [of "h_ppid Wk" "h_pid Sc" "h_ppid Sc" "clear_stale Wk (pre @ ''_uniqueid_'') files"
        "unique_id_file pre" Wk uid] assms(2,3,5)
    by (auto simp: scheduler_read_unique_id_def worker_generate_unique_id_def Let_def clear_stale_None)
qed

lemma shm_handoff_round_trip_witness:
  "scheduler_read_block_size (example_host 7 1) []
     (worker_publish_block_size (example_host 8 7) 65536 0 [] [(''ucm_blocksize_3'', ''x'', 0)]) = Some 65536"
  using shm_handoff_round_trip [of 65536 "example_host 8 7" "''a1''" "example_host 7 1"
      "[(''ucm_blocksize_3'', ''x'', 0)]" "[]" "''ucm''"]
  by (simp add: example_host_def is_space_def)

end
