(* ===== verification/Rank_Consistency.thy ===== *)
theory Rank_Consistency
  imports Environment "HOL-Library.Char_ord" "HOL-Library.List_Lexorder"
begin

text \<open>
  src/ucm/integration/vllm/rank_consistency.py: the scheduler's set of blocks known to be
  missing on some rank (\<open>RankConsistencyTracker\<close>) and the wrapper around store operations
  that filters lookups and keeps the books of loads and dumps (\<open>RankConsistencyManager\<close>),
  with the worker metadata both sides exchange (\<open>UCMWorkerMetadata\<close>, ucm_connector.py).
\<close>

section \<open>Python sets\<close>

text \<open>
  The order in which a Python set is iterated and the element \<open>set.pop()\<close> removes are the
  interpreter's choice. They are a parameter, of which only the documented part is used.
\<close>

record set_impl =
  set_iter :: "bytes set \<Rightarrow> bytes list"
  set_pop :: "bytes set \<Rightarrow> bytes"

definition set_impl_ok :: "set_impl \<Rightarrow> bool" where
  "set_impl_ok P \<longleftrightarrow>
     (\<forall>S. finite S \<longrightarrow> set (set_iter P S) = S \<and> distinct (set_iter P S)) \<and>
     (\<forall>S. finite S \<longrightarrow> S \<noteq> {} \<longrightarrow> set_pop P S \<in> S)"

definition sorted_impl :: set_impl where
  "sorted_impl = \<lparr> set_iter = sorted_list_of_set, set_pop = (\<lambda>S. hd (sorted_list_of_set S)) \<rparr>"

section \<open>RankConsistencyTracker\<close>

definition MAX_INCONSISTENT_BLOCKS :: nat where
  "MAX_INCONSISTENT_BLOCKS = 2000000"

record tracker =
  inconsistent :: "bytes set"

definition init_tracker :: tracker where
  "init_tracker = \<lparr> inconsistent = {} \<rparr>"

definition mark_one :: "set_impl \<Rightarrow> bytes \<Rightarrow> nat \<times> tracker \<Rightarrow> nat \<times> tracker" where
  "mark_one P block_id acc =
     (case acc of (added, tr) \<Rightarrow>
        if block_id \<in> inconsistent tr then (added, tr)
        else
          let S = inconsistent tr;
              S' = (if card S \<ge> MAX_INCONSISTENT_BLOCKS then S - {set_pop P S} else S)
          in (Suc added, tr\<lparr>inconsistent := insert block_id S'\<rparr>))"

definition mark_missing :: "set_impl \<Rightarrow> bytes set \<Rightarrow> tracker \<Rightarrow> nat \<times> tracker" where
  "mark_missing P rank0_block_ids tr = fold (mark_one P) (set_iter P rank0_block_ids) (0, tr)"

definition clear_dumped :: "bytes set \<Rightarrow> tracker \<Rightarrow> nat \<times> tracker" where
  "clear_dumped rank0_block_ids tr =
     (let before = card (inconsistent tr);
          tr' = tr\<lparr>inconsistent := inconsistent tr - rank0_block_ids\<rparr>
      in (before - card (inconsistent tr'), tr'))"

definition tracker_contains :: "bytes \<Rightarrow> tracker \<Rightarrow> bool" where
  "tracker_contains block_id tr = (block_id \<in> inconsistent tr)"

fun valid_prefix :: "tracker \<Rightarrow> bytes list \<Rightarrow> bytes list" where
  "valid_prefix tr [] = []"
| "valid_prefix tr (block_id # block_ids) =
     (if tracker_contains block_id tr then [] else block_id # valid_prefix tr block_ids)"

section \<open>Worker metadata\<close>

record worker_meta =
  wm_is_mla :: bool
  wm_load_failed_reqs :: "string set"
  wm_missing_reqs :: "string set"
  wm_missing_blocks :: "bytes set"
  wm_dump_succeeded_blocks :: "bytes set"

definition empty_worker_meta :: "bool \<Rightarrow> worker_meta" where
  "empty_worker_meta is_mla =
     \<lparr> wm_is_mla = is_mla, wm_load_failed_reqs = {}, wm_missing_reqs = {},
       wm_missing_blocks = {}, wm_dump_succeeded_blocks = {} \<rparr>"

definition meta_mark_failed :: "string \<Rightarrow> worker_meta \<Rightarrow> worker_meta" where
  "meta_mark_failed req_id wm =
     wm\<lparr>wm_load_failed_reqs := insert req_id (wm_load_failed_reqs wm)\<rparr>"

definition meta_mark_missing :: "string \<Rightarrow> bytes list \<Rightarrow> worker_meta \<Rightarrow> worker_meta" where
  "meta_mark_missing req_id rank0_block_ids wm =
     wm\<lparr>wm_missing_reqs := insert req_id (wm_missing_reqs wm),
        wm_missing_blocks := wm_missing_blocks wm \<union> set rank0_block_ids\<rparr>"

definition aggregate :: "worker_meta \<Rightarrow> worker_meta \<Rightarrow> worker_meta res" where
  "aggregate wm other =
     (if wm_is_mla wm \<noteq> wm_is_mla other then Inl AssertionError
      else Inr (wm\<lparr>wm_load_failed_reqs := wm_load_failed_reqs wm \<union> wm_load_failed_reqs other,
                   wm_missing_reqs := wm_missing_reqs wm \<union> wm_missing_reqs other,
                   wm_missing_blocks := wm_missing_blocks wm \<union> wm_missing_blocks other,
                   wm_dump_succeeded_blocks :=
                     (if wm_is_mla wm
                      then wm_dump_succeeded_blocks wm \<union> wm_dump_succeeded_blocks other
                      else wm_dump_succeeded_blocks wm \<inter> wm_dump_succeeded_blocks other)\<rparr>))"

text \<open>The engine folds the metadata of all ranks of a step into the first one.\<close>

fun aggregate_all :: "worker_meta \<Rightarrow> worker_meta list \<Rightarrow> worker_meta res" where
  "aggregate_all wm [] = Inr wm"
| "aggregate_all wm (other # others) =
     (case aggregate wm other of Inl e \<Rightarrow> Inl e | Inr wm' \<Rightarrow> aggregate_all wm' others)"

section \<open>RankConsistencyManager\<close>

type_synonym load_context = "(string \<times> bytes list) list"
type_synonym dump_context = "(string \<times> bytes set) list"

record manager =
  enabled :: bool
  tracker_of :: "tracker option"
  missing_reqs :: "string set"
  missing_blocks :: "bytes set"
  dump_succeeded_blocks :: "bytes set"
  load_task_contexts :: "(task \<times> store_ref \<times> load_context) list"
  dump_task_contexts :: "(task \<times> store_ref \<times> dump_context) list"
  dump_blocks_by_request :: "string \<Rightarrow> bytes set option"
  dump_failed_blocks_by_request :: "string \<Rightarrow> bytes set option"

definition init_manager :: "bool \<Rightarrow> bool \<Rightarrow> manager" where
  "init_manager is_scheduler use_consistency_manager =
     \<lparr> enabled = use_consistency_manager,
       tracker_of = (if is_scheduler \<and> use_consistency_manager then Some init_tracker else None),
       missing_reqs = {}, missing_blocks = {}, dump_succeeded_blocks = {},
       load_task_contexts = [], dump_task_contexts = [],
       dump_blocks_by_request = (\<lambda>_. None), dump_failed_blocks_by_request = (\<lambda>_. None) \<rparr>"

definition mgr_lookup_on_prefix ::
  "world \<Rightarrow> manager \<Rightarrow> store_ref \<Rightarrow> bytes list \<Rightarrow> trace \<Rightarrow> int res \<times> trace" where
  "mgr_lookup_on_prefix W m store block_ids t =
     (if \<not> enabled m then store_lookup_on_prefix W store block_ids t
      else
        let block_ids = (case tracker_of m of None \<Rightarrow> block_ids
                         | Some tr \<Rightarrow> valid_prefix tr block_ids)
        in if block_ids = [] then (Inr (- 1), t)
           else store_lookup_on_prefix W store block_ids t)"

text \<open>
  The loop of \<open>lookup_on_reverse\<close>: it stops only if the store's answers move to the left,
  so its model is a partial function whose value \<open>None\<close> is "does not return".
\<close>

partial_function (option) reverse_scan ::
  "world \<Rightarrow> tracker \<Rightarrow> store_ref \<Rightarrow> bytes list \<Rightarrow> int \<Rightarrow> trace \<Rightarrow> (int res \<times> trace) option" where
  "reverse_scan W tr store block_ids result t =
     (if result < 0 then Some (Inr result, t)
      else case py_nth block_ids result of
             Inl e \<Rightarrow> Some (Inl e, t)
           | Inr block_id \<Rightarrow>
               if \<not> tracker_contains block_id tr then Some (Inr result, t)
               else if result = 0 then Some (Inr (- 1), t)
               else case store_lookup_on_reverse W store (py_upto block_ids result) t of
                      (Inl e, t') \<Rightarrow> Some (Inl e, t')
                    | (Inr result', t') \<Rightarrow> reverse_scan W tr store block_ids result' t')"

definition mgr_lookup_on_reverse ::
  "world \<Rightarrow> manager \<Rightarrow> store_ref \<Rightarrow> bytes list \<Rightarrow> trace \<Rightarrow> (int res \<times> trace) option" where
  "mgr_lookup_on_reverse W m store block_ids t =
     (if \<not> enabled m then Some (store_lookup_on_reverse W store block_ids t)
      else case tracker_of m of
             None \<Rightarrow> Some (store_lookup_on_reverse W store block_ids t)
           | Some tr \<Rightarrow>
               if block_ids = [] then Some (store_lookup_on_reverse W store block_ids t)
               else case store_lookup_on_reverse W store block_ids t of
                      (Inl e, t') \<Rightarrow> Some (Inl e, t')
                    | (Inr result, t') \<Rightarrow> reverse_scan W tr store block_ids result t')"

definition mgr_lookup_all ::
  "world \<Rightarrow> manager \<Rightarrow> store_ref \<Rightarrow> bytes list \<Rightarrow> trace \<Rightarrow> bool list res \<times> trace" where
  "mgr_lookup_all W m store block_ids t =
     (case store_lookup W store block_ids t of
        (Inl e, t') \<Rightarrow> (Inl e, t')
      | (Inr results, t') \<Rightarrow>
          (case tracker_of m of
             None \<Rightarrow> (Inr results, t')
           | Some tr \<Rightarrow>
               (Inr (map (\<lambda>(block_id, result). if tracker_contains block_id tr then False else result)
                  (zip block_ids results)), t')))"

definition mark_load_context_missing :: "load_context \<Rightarrow> manager \<Rightarrow> manager" where
  "mark_load_context_missing block_ids_by_request m =
     fold (\<lambda>(request_id, block_ids) m.
             m\<lparr>missing_reqs := insert request_id (missing_reqs m),
               missing_blocks := missing_blocks m \<union> set block_ids\<rparr>)
       block_ids_by_request m"

definition setdefault_update ::
  "string \<Rightarrow> bytes set \<Rightarrow> (string \<Rightarrow> bytes set option) \<Rightarrow> (string \<Rightarrow> bytes set option)" where
  "setdefault_update k S d = d(k := Some ((case d k of None \<Rightarrow> {} | Some S' \<Rightarrow> S') \<union> S))"

definition record_dump_failure :: "dump_context \<Rightarrow> manager \<Rightarrow> manager" where
  "record_dump_failure block_ids_by_request m =
     m\<lparr>dump_failed_blocks_by_request :=
         fold (\<lambda>(r, S). setdefault_update r S) block_ids_by_request
           (dump_failed_blocks_by_request m)\<rparr>"

definition submit_load ::
  "world \<Rightarrow> store_ref \<Rightarrow> load_context \<Rightarrow> bytes list \<Rightarrow> int list \<Rightarrow> u64 list list \<Rightarrow> bool \<Rightarrow>
   manager \<Rightarrow> trace \<Rightarrow> task res \<times> manager \<times> trace" where
  "submit_load W store block_ids_by_request block_ids shard_indices ptrs distribute m t =
     (let ctx = (if enabled m then block_ids_by_request else []);
          load_options = (if w_supports_distributed W store then Some distribute else None)
      in case store_load_data W store block_ids shard_indices ptrs load_options t of
           (Inl e, t') \<Rightarrow>
             (Inl e,
              if enabled m \<and> e = StoreNotFoundError then mark_load_context_missing ctx m else m,
              t')
         | (Inr tk, t') \<Rightarrow>
             (Inr tk,
              m\<lparr>load_task_contexts := AList.update tk (store, ctx) (load_task_contexts m)\<rparr>,
              t'))"

text \<open>\<open>wait_load\<close> takes an optional callable that replaces the store's own wait.\<close>

definition wait_load ::
  "world \<Rightarrow> task \<Rightarrow> (trace \<Rightarrow> unit res \<times> trace) option \<Rightarrow> manager \<Rightarrow> trace \<Rightarrow>
   unit res \<times> manager \<times> trace" where
  "wait_load W tk wait_fn m t =
     (case map_of (load_task_contexts m) tk of
        None \<Rightarrow> (Inl (RuntimeError ''Load task was not submitted through submit_load().''), m, t)
      | Some (store, ctx) \<Rightarrow>
          let m' = m\<lparr>load_task_contexts := AList.delete tk (load_task_contexts m)\<rparr>
          in case (case wait_fn of None \<Rightarrow> store_wait W store tk t | Some f \<Rightarrow> f t) of
               (Inr _, t') \<Rightarrow> (Inr (), m', t')
             | (Inl e, t') \<Rightarrow>
                 (Inl e,
                  if enabled m' \<and> e = StoreNotFoundError
                  then mark_load_context_missing ctx m' else m', t'))"

definition check_load ::
  "world \<Rightarrow> task \<Rightarrow> manager \<Rightarrow> trace \<Rightarrow> bool res \<times> manager \<times> trace" where
  "check_load W tk m t =
     (case map_of (load_task_contexts m) tk of
        None \<Rightarrow> (Inl (RuntimeError ''Load task was not submitted through submit_load().''), m, t)
      | Some (store, ctx) \<Rightarrow>
          (case store_check W store tk t of
             (Inr b, t') \<Rightarrow> (Inr b, m, t')
           | (Inl e, t') \<Rightarrow>
               let m' = m\<lparr>load_task_contexts := AList.delete tk (load_task_contexts m)\<rparr>
               in (Inl e,
                   if enabled m' \<and> e = StoreNotFoundError
                   then mark_load_context_missing ctx m' else m', t')))"

definition submit_dump ::
  "world \<Rightarrow> store_ref \<Rightarrow> dump_context \<Rightarrow> bytes list \<Rightarrow> int list \<Rightarrow> u64 list list \<Rightarrow> int \<Rightarrow>
   manager \<Rightarrow> trace \<Rightarrow> task res \<times> manager \<times> trace" where
  "submit_dump W store block_ids_by_request block_ids shard_indices ptrs event_handle m t =
     (let ctx = (if enabled m then block_ids_by_request else []);
          m = m\<lparr>dump_blocks_by_request :=
                  fold (\<lambda>(r, S). setdefault_update r S) ctx (dump_blocks_by_request m)\<rparr>
      in case store_dump_data W store block_ids shard_indices ptrs event_handle t of
           (Inl e, t') \<Rightarrow> (Inl e, record_dump_failure ctx m, t')
         | (Inr tk, t') \<Rightarrow>
             (Inr tk,
              m\<lparr>dump_task_contexts := AList.update tk (store, ctx) (dump_task_contexts m)\<rparr>,
              t'))"

definition wait_dump ::
  "world \<Rightarrow> task \<Rightarrow> manager \<Rightarrow> trace \<Rightarrow> unit res \<times> manager \<times> trace" where
  "wait_dump W tk m t =
     (case map_of (dump_task_contexts m) tk of
        None \<Rightarrow> (Inl (RuntimeError ''Dump task was not submitted through submit_dump().''), m, t)
      | Some (store, ctx) \<Rightarrow>
          let m' = m\<lparr>dump_task_contexts := AList.delete tk (dump_task_contexts m)\<rparr>
          in case store_wait W store tk t of
               (Inr _, t') \<Rightarrow> (Inr (), m', t')
             | (Inl e, t') \<Rightarrow>
                 (if e = StoreUnhealthyError then Inr () else Inl e,
                  record_dump_failure ctx m', t'))"

definition pending_request_ids :: "manager \<Rightarrow> string set" where
  "pending_request_ids m = (\<Union>(tk, store, ctx) \<in> set (dump_task_contexts m). fst ` set ctx)"

definition blocks_of :: "(string \<Rightarrow> bytes set option) \<Rightarrow> string \<Rightarrow> bytes set" where
  "blocks_of d r = (case d r of None \<Rightarrow> {} | Some S \<Rightarrow> S)"

definition finish_dump :: "string set \<Rightarrow> manager \<Rightarrow> unit res \<times> manager" where
  "finish_dump request_ids m =
     (if \<not> enabled m then (Inr (), m)
      else if request_ids \<inter> pending_request_ids m \<noteq> {}
      then (Inl (RuntimeError ''Dump tasks are still pending for requests''), m)
      else (Inr (),
            m\<lparr>dump_blocks_by_request :=
                (\<lambda>r. if r \<in> request_ids then None else dump_blocks_by_request m r),
              dump_failed_blocks_by_request :=
                (\<lambda>r. if r \<in> request_ids then None else dump_failed_blocks_by_request m r),
              dump_succeeded_blocks :=
                dump_succeeded_blocks m \<union>
                (\<Union>r \<in> request_ids.
                   blocks_of (dump_blocks_by_request m) r -
                   blocks_of (dump_failed_blocks_by_request m) r)\<rparr>))"

definition update_worker_meta :: "worker_meta \<Rightarrow> manager \<Rightarrow> worker_meta \<times> manager" where
  "update_worker_meta wm m =
     (if \<not> enabled m then (wm, m)
      else (wm\<lparr>wm_missing_reqs := wm_missing_reqs wm \<union> missing_reqs m,
               wm_missing_blocks := wm_missing_blocks wm \<union> missing_blocks m,
               wm_dump_succeeded_blocks := wm_dump_succeeded_blocks wm \<union> dump_succeeded_blocks m\<rparr>,
            m\<lparr>missing_reqs := {}, missing_blocks := {}, dump_succeeded_blocks := {}\<rparr>))"

definition apply_worker_meta :: "set_impl \<Rightarrow> worker_meta \<Rightarrow> manager \<Rightarrow> manager" where
  "apply_worker_meta P wm m =
     (case tracker_of m of
        None \<Rightarrow> m
      | Some tr \<Rightarrow>
          let (cleared, tr) = clear_dumped (wm_dump_succeeded_blocks wm) tr;
              (added, tr) = mark_missing P (wm_missing_blocks wm) tr
          in m\<lparr>tracker_of := Some tr\<rparr>)"

section \<open>Histories of dump operations\<close>

text \<open>
  A worker drives the dump side of the manager by submitting, waiting and finishing. A
  history notes, latest first, what the store did: a submission accepted under a handle or
  rejected, a wait with the store's own answer, and which requests were reported finished.
\<close>

datatype dump_op =
    OpSubmit store_ref dump_context "bytes list" "int list" "u64 list list" int
  | OpWait task
  | OpFinish "string set"

datatype dump_note =
    Accepted task dump_context
  | Rejected dump_context
  | Waited task "unit res"
  | Finished "string set"

definition dump_step ::
  "world \<Rightarrow> dump_op \<Rightarrow> manager \<times> trace \<times> dump_note list \<Rightarrow> manager \<times> trace \<times> dump_note list" where
  "dump_step W op st =
     (case st of (m, t, hist) \<Rightarrow>
        (case op of
           OpSubmit store ctx ids shards ptrs handle \<Rightarrow>
             (case submit_dump W store ctx ids shards ptrs handle m t of
                (Inl e, m', t') \<Rightarrow> (m', t', Rejected ctx # hist)
              | (Inr tk, m', t') \<Rightarrow> (m', t', Accepted tk ctx # hist))
         | OpWait tk \<Rightarrow>
             (case map_of (dump_task_contexts m) tk of
                None \<Rightarrow> (m, t, hist)
              | Some (store, _) \<Rightarrow>
                  (case wait_dump W tk m t of
                     (r, m', t') \<Rightarrow> (m', t', Waited tk (w_wait W t store tk) # hist)))
         | OpFinish rs \<Rightarrow>
             (case finish_dump rs m of
                (Inl e, m') \<Rightarrow> (m', t, hist)
              | (Inr _, m') \<Rightarrow> (m', t, Finished rs # hist))))"

definition dump_run :: "world \<Rightarrow> dump_op list \<Rightarrow> manager \<times> trace \<times> dump_note list \<Rightarrow> manager \<times> trace \<times> dump_note list" where
  "dump_run W ops st = fold (dump_step W) ops st"

definition ctx_blocks :: "dump_context \<Rightarrow> string \<Rightarrow> bytes set" where
  "ctx_blocks ctx r = (\<Union>(r', S) \<in> set ctx. if r' = r then S else {})"

text \<open>
  What a history says about a request since its last report: the blocks some submission
  covered, and whether a submission was settled, that is rejected never and waited for with
  success by a later note.
\<close>

fun ctx_of_handle :: "dump_note list \<Rightarrow> task \<Rightarrow> dump_context" where
  "ctx_of_handle [] tk = []"
| "ctx_of_handle (Accepted tk' ctx # hist) tk = (if tk' = tk then ctx else ctx_of_handle hist tk)"
| "ctx_of_handle (n # hist) tk = ctx_of_handle hist tk"

fun covered_since_report :: "dump_note list \<Rightarrow> string \<Rightarrow> bytes set" where
  "covered_since_report [] r = {}"
| "covered_since_report (Accepted tk ctx # hist) r = ctx_blocks ctx r \<union> covered_since_report hist r"
| "covered_since_report (Rejected ctx # hist) r = ctx_blocks ctx r \<union> covered_since_report hist r"
| "covered_since_report (Waited tk res # hist) r = covered_since_report hist r"
| "covered_since_report (Finished rs # hist) r = (if r \<in> rs then {} else covered_since_report hist r)"

fun failed_since_report :: "dump_note list \<Rightarrow> string \<Rightarrow> bytes set" where
  "failed_since_report [] r = {}"
| "failed_since_report (Accepted tk ctx # hist) r = failed_since_report hist r"
| "failed_since_report (Rejected ctx # hist) r = ctx_blocks ctx r \<union> failed_since_report hist r"
| "failed_since_report (Waited tk (Inl e) # hist) r =
     ctx_blocks (ctx_of_handle hist tk) r \<union> failed_since_report hist r"
| "failed_since_report (Waited tk (Inr u) # hist) r = failed_since_report hist r"
| "failed_since_report (Finished rs # hist) r = (if r \<in> rs then {} else failed_since_report hist r)"

fun reported :: "dump_note list \<Rightarrow> bytes set" where
  "reported [] = {}"
| "reported (Finished rs # hist) =
     (\<Union>r \<in> rs. covered_since_report hist r - failed_since_report hist r) \<union> reported hist"
| "reported (n # hist) = reported hist"

text \<open>
  The handles accepted and not yet waited for.
\<close>

fun unwaited :: "dump_note list \<Rightarrow> task set" where
  "unwaited [] = {}"
| "unwaited (Accepted tk ctx # hist) = insert tk (unwaited hist)"
| "unwaited (Waited tk r # hist) = unwaited hist - {tk}"
| "unwaited (n # hist) = unwaited hist"

text \<open>
  A block is settled for a request when every submission that covers it since the last
  report was accepted under a handle whose next wait succeeded. The scan runs from the
  latest note back and carries the handles whose next wait succeeded.
\<close>

fun settled :: "task set \<Rightarrow> dump_note list \<Rightarrow> string \<Rightarrow> bytes \<Rightarrow> bool" where
  "settled ws [] r b = True"
| "settled ws (Accepted tk ctx # hist) r b =
     ((b \<in> ctx_blocks ctx r \<longrightarrow> tk \<in> ws) \<and> settled (ws - {tk}) hist r b)"
| "settled ws (Rejected ctx # hist) r b = (b \<notin> ctx_blocks ctx r \<and> settled ws hist r b)"
| "settled ws (Waited tk (Inl e) # hist) r b = settled (ws - {tk}) hist r b"
| "settled ws (Waited tk (Inr u) # hist) r b = settled (insert tk ws) hist r b"
| "settled ws (Finished rs # hist) r b = (r \<in> rs \<or> settled ws hist r b)"

fun fresh_notes :: "dump_note list \<Rightarrow> bool" where
  "fresh_notes [] = True"
| "fresh_notes (Accepted tk ctx # hist) = (tk \<notin> unwaited hist \<and> fresh_notes hist)"
| "fresh_notes (n # hist) = fresh_notes hist"

text \<open>A request is reported only when no accepted dump of it is still unwaited.\<close>

fun clean_reports :: "dump_note list \<Rightarrow> bool" where
  "clean_reports [] = True"
| "clean_reports (Finished rs # hist) =
     ((\<forall>r \<in> rs. \<forall>tk \<in> unwaited hist. r \<notin> fst ` set (ctx_of_handle hist tk)) \<and> clean_reports hist)"
| "clean_reports (n # hist) = clean_reports hist"

text \<open>A report of a block: the request it was reported for and the notes before the report.\<close>

definition report_of :: "dump_note list \<Rightarrow> bytes \<Rightarrow> dump_note list \<Rightarrow> string \<Rightarrow> bool" where
  "report_of hist b earlier r \<longleftrightarrow>
     (\<exists>later rs. hist = later @ Finished rs # earlier \<and> r \<in> rs \<and>
        b \<in> covered_since_report earlier r \<and> b \<notin> failed_since_report earlier r)"

text \<open>What the manager must agree with the history on.\<close>

definition ledger_inv :: "manager \<times> trace \<times> dump_note list \<Rightarrow> bool" where
  "ledger_inv st =
     (case st of (m, t, hist) \<Rightarrow>
        enabled m \<and> dict_wf (dump_task_contexts m) \<and>
        (\<forall>tk p. map_of (dump_task_contexts m) tk = Some p \<longrightarrow> snd p = ctx_of_handle hist tk) \<and>
        fst ` set (dump_task_contexts m) = unwaited hist \<and>
        (\<forall>r. blocks_of (dump_blocks_by_request m) r = covered_since_report hist r) \<and>
        (\<forall>r. blocks_of (dump_failed_blocks_by_request m) r = failed_since_report hist r) \<and>
        dump_succeeded_blocks m = reported hist)"

text \<open>A run for evaluation.\<close>

definition example_ops :: "dump_op list" where
  "example_ops =
     [OpSubmit 0 [(''r1'', {''a'', ''b''})] [''a'', ''b''] [0, 0] [[1], [2]] 0,
      OpWait 0, OpFinish {''r1''}]"

section \<open>Tracker facts\<close>

lemma sorted_impl_ok: "set_impl_ok sorted_impl"
  unfolding set_impl_ok_def sorted_impl_def
  by simp (metis hd_in_set list.set(1) set_sorted_list_of_set)

lemma valid_prefix_takeWhile: "valid_prefix tr ids = takeWhile (\<lambda>b. \<not> tracker_contains b tr) ids"
  by (induction ids) simp_all

text \<open>
  The contract of a filter in front of a prefix lookup: it cuts the query at the first
  hidden block. A documented store behind it then answers as if the hidden blocks were
  absent.
\<close>

locale prefix_filter =
  fixes hidden :: "bytes \<Rightarrow> 's \<Rightarrow> bool"
    and cut :: "'s \<Rightarrow> bytes list \<Rightarrow> bytes list"
  assumes cut_eq: "cut s ids = takeWhile (\<lambda>b. \<not> hidden b s) ids"
begin

lemma prefix_of_cut:
  "lookup_on_prefix_doc present (cut s ids) = lookup_on_prefix_doc (\<lambda>b. present b \<and> \<not> hidden b s) ids"
proof -
  have "takeWhile present (takeWhile (\<lambda>b. \<not> hidden b s) ids) = takeWhile (\<lambda>b. present b \<and> \<not> hidden b s) ids"
    by (induction ids) auto
  then show ?thesis by (simp add: lookup_on_prefix_doc_def cut_eq)
qed

lemma cut_prefix: "prefix (cut s ids) ids"
  by (simp add: cut_eq takeWhile_is_prefix)

end

interpretation tracker_filter: prefix_filter tracker_contains valid_prefix
  by unfold_locales (rule valid_prefix_takeWhile)

lemma mark_one_spec:
  assumes "set_impl_ok P" "finite (inconsistent tr)" "card (inconsistent tr) \<le> MAX_INCONSISTENT_BLOCKS"
    and "mark_one P b (n, tr) = (n', tr')"
  shows "finite (inconsistent tr') \<and> card (inconsistent tr') \<le> MAX_INCONSISTENT_BLOCKS \<and>
         b \<in> inconsistent tr' \<and> inconsistent tr' \<subseteq> insert b (inconsistent tr)"
proof (cases "b \<in> inconsistent tr")
  case False
  let ?S = "inconsistent tr"
  have pop: "set_pop P ?S \<in> ?S" if "MAX_INCONSISTENT_BLOCKS \<le> card ?S"
  proof -
    from that have "?S \<noteq> {}" by (auto simp: MAX_INCONSISTENT_BLOCKS_def)
    with assms(1,2) show ?thesis by (simp add: set_impl_ok_def)
  qed
  then have "card (?S - {set_pop P ?S}) < MAX_INCONSISTENT_BLOCKS" if "MAX_INCONSISTENT_BLOCKS \<le> card ?S"
    using that assms(2,3) by (metis card_Diff1_less order_less_le_trans)
  with False assms show ?thesis
    by (auto simp: mark_one_def Let_def card_insert_if split: if_splits)
qed (use assms in \<open>auto simp: mark_one_def\<close>)

lemma mark_fold_bound:
  assumes "set_impl_ok P" "finite (inconsistent tr)" "card (inconsistent tr) \<le> MAX_INCONSISTENT_BLOCKS"
    and "fold (mark_one P) bs (n, tr) = (n', tr')"
  shows "finite (inconsistent tr') \<and> card (inconsistent tr') \<le> MAX_INCONSISTENT_BLOCKS \<and>
         inconsistent tr' \<subseteq> inconsistent tr \<union> set bs"
  using assms(2-4)
proof (induction bs arbitrary: n tr)
  case (Cons b bs)
  obtain k tr1 where one: "mark_one P b (n, tr) = (k, tr1)" by fastforce
  from mark_one_spec [OF assms(1) Cons.prems(1,2) one] Cons.IH [of tr1 k] Cons.prems(3) one
  show ?case by auto
qed simp

lemma mark_fold_room:
  assumes "finite (inconsistent tr)" "card (inconsistent tr \<union> set bs) \<le> MAX_INCONSISTENT_BLOCKS"
  shows "fold (mark_one P) bs (n, tr) =
         (n + card (set bs - inconsistent tr), tr\<lparr>inconsistent := inconsistent tr \<union> set bs\<rparr>)"
  using assms
proof (induction bs arbitrary: n tr)
  case (Cons b bs)
  show ?case
  proof (cases "b \<in> inconsistent tr")
    case True
    then have "mark_one P b (n, tr) = (n, tr)" by (simp add: mark_one_def)
    with Cons True show ?thesis by (simp add: insert_absorb)
  next
    case False
    have "card (inconsistent tr) < card (insert b (inconsistent tr \<union> set bs))"
      using Cons.prems(1) False by (intro psubset_card_mono) auto
    with Cons.prems(2) have "\<not> MAX_INCONSISTENT_BLOCKS \<le> card (inconsistent tr)" by simp
    with False have "mark_one P b (n, tr) = (Suc n, tr\<lparr>inconsistent := insert b (inconsistent tr)\<rparr>)"
      by (simp add: mark_one_def)
    moreover have "Suc (card (set bs - insert b (inconsistent tr))) = card (insert b (set bs) - inconsistent tr)"
    proof -
      have "insert b (set bs) - inconsistent tr = insert b (set bs - insert b (inconsistent tr))"
        using False by auto
      then show ?thesis by simp
    qed
    ultimately show ?thesis using Cons.IH [of "tr\<lparr>inconsistent := insert b (inconsistent tr)\<rparr>" "Suc n"] Cons.prems
      by simp
  qed
qed simp

lemma apply_worker_meta_room:
  assumes "set_impl_ok P" "tracker_of m = Some tr" "finite (inconsistent tr)" "finite (wm_missing_blocks wm)"
    and "card ((inconsistent tr - wm_dump_succeeded_blocks wm) \<union> wm_missing_blocks wm) \<le> MAX_INCONSISTENT_BLOCKS"
  shows "apply_worker_meta P wm m =
    m\<lparr>tracker_of := Some (tr\<lparr>inconsistent :=
        (inconsistent tr - wm_dump_succeeded_blocks wm) \<union> wm_missing_blocks wm\<rparr>)\<rparr>"
proof -
  have "set (set_iter P (wm_missing_blocks wm)) = wm_missing_blocks wm"
    using assms(1,4) by (simp add: set_impl_ok_def)
  with assms(2,3,5) show ?thesis
    by (simp add: apply_worker_meta_def clear_dumped_def mark_missing_def Let_def mark_fold_room)
qed

lemma apply_worker_meta_bound:
  assumes "set_impl_ok P" "tracker_of m = Some tr" "finite (inconsistent tr)" "finite (wm_missing_blocks wm)"
    and "card (inconsistent tr) \<le> MAX_INCONSISTENT_BLOCKS"
  shows "\<exists>tr'. tracker_of (apply_worker_meta P wm m) = Some tr' \<and> finite (inconsistent tr') \<and>
    card (inconsistent tr') \<le> MAX_INCONSISTENT_BLOCKS \<and>
    inconsistent tr' \<subseteq> (inconsistent tr - wm_dump_succeeded_blocks wm) \<union> wm_missing_blocks wm"
proof -
  let ?tr = "tr\<lparr>inconsistent := inconsistent tr - wm_dump_succeeded_blocks wm\<rparr>"
  obtain n tr' where fold: "fold (mark_one P) (set_iter P (wm_missing_blocks wm)) (0, ?tr) = (n, tr')"
    by fastforce
  have "card (inconsistent ?tr) \<le> MAX_INCONSISTENT_BLOCKS"
    using assms(3,5) card_mono [of "inconsistent tr" "inconsistent ?tr"] by simp
  with mark_fold_bound [OF assms(1) _ _ fold] assms show ?thesis
    by (simp add: apply_worker_meta_def clear_dumped_def mark_missing_def Let_def fold set_impl_ok_def)
qed

section \<open>Lookups through the manager\<close>

lemma mgr_prefix_documented:
  assumes "store_as_documented W store present"
  shows "fst (mgr_lookup_on_prefix W m store ids t) =
    Inr (lookup_on_prefix_doc
      (\<lambda>b. present b \<and> \<not> (enabled m \<and> (\<exists>tr. tracker_of m = Some tr \<and> tracker_contains b tr))) ids)"
  using assms
  by (auto simp: mgr_lookup_on_prefix_def store_lookup_on_prefix_def store_as_documented_def Let_def
      tracker_filter.prefix_of_cut [symmetric] split: option.splits)
    (auto simp: lookup_on_prefix_doc_def)

lemma reverse_doc_upto_hidden:
  assumes "lookup_on_reverse_doc present ids = int i" "hidden (ids ! i)"
  shows "lookup_on_reverse_doc (\<lambda>b. present b \<and> \<not> hidden b) ids =
         lookup_on_reverse_doc (\<lambda>b. present b \<and> \<not> hidden b) (take i ids)"
  using assms
proof (induction ids rule: rev_induct)
  case (snoc b ids)
  show ?case
  proof (cases "present b")
    case True
    with snoc.prems have "i = length ids" "hidden b" by (auto simp: reverse_doc_snoc)
    then show ?thesis by (simp add: reverse_doc_snoc)
  next
    case False
    then have eq: "lookup_on_reverse_doc present ids = int i" using snoc.prems(1) by (simp add: reverse_doc_snoc)
    then have "i < length ids" by (simp add: reverse_doc_eq_iff)
    with eq False snoc show ?thesis by (simp add: reverse_doc_snoc nth_append)
  qed
qed simp

lemma reverse_scan_documented:
  assumes "store_as_documented W store present"
    and "n \<le> length ids" "result = lookup_on_reverse_doc present (take n ids)"
  shows "\<exists>t'. reverse_scan W tr store ids result t =
    Some (Inr (lookup_on_reverse_doc (\<lambda>b. present b \<and> \<not> tracker_contains b tr) (take n ids)), t')"
  using assms(2,3)
proof (induction n arbitrary: result t rule: less_induct)
  case (less n)
  let ?q = "\<lambda>b. present b \<and> \<not> tracker_contains b tr"
  show ?case
  proof (cases "result < 0")
    case True
    with less.prems(2) reverse_doc_bounds [of present "take n ids"] have "result = - 1" by linarith
    with less.prems(2) have "lookup_on_reverse_doc ?q (take n ids) = - 1"
      by (simp add: reverse_doc_none_iff eq_commute [of "- 1"])
    with True \<open>result = - 1\<close> show ?thesis by (simp add: reverse_scan.simps)
  next
    case False
    then obtain i where i: "result = int i" by (metis nonneg_int_cases not_less)
    with less.prems have doc: "lookup_on_reverse_doc present (take n ids) = int i" by simp
    with less.prems(1) have at_i: "i < n" "i < length ids" "present (ids ! i)"
      by (auto simp: reverse_doc_eq_iff)
    then have nth: "py_nth ids result = Inr (ids ! i)" by (simp add: i py_nth_def)
    show ?thesis
    proof (cases "tracker_contains (ids ! i) tr")
      case hidden: True
      then have shorter: "lookup_on_reverse_doc ?q (take n ids) = lookup_on_reverse_doc ?q (take i ids)"
        using reverse_doc_upto_hidden [OF doc, of "\<lambda>b. tracker_contains b tr"] at_i by (simp add: min_def)
      show ?thesis
      proof (cases "i = 0")
        case False
        then show ?thesis
          using less.IH [OF at_i(1) _ refl] at_i hidden False nth assms(1) shorter
          by (subst reverse_scan.simps)
            (simp add: i store_lookup_on_reverse_def store_as_documented_def py_upto_nonneg Let_def)
      qed (use hidden nth shorter i in \<open>simp add: reverse_scan.simps\<close>)
    next
      case False
      with doc have "lookup_on_reverse_doc ?q (take n ids) = int i"
        by (auto simp: reverse_doc_eq_iff)
      with False nth i show ?thesis by (simp add: reverse_scan.simps)
    qed
  qed
qed

lemma mgr_reverse_documented:
  assumes "store_as_documented W store present"
  shows "\<exists>t'. mgr_lookup_on_reverse W m store ids t =
    Some (Inr (lookup_on_reverse_doc
      (\<lambda>b. present b \<and> \<not> (enabled m \<and> (\<exists>tr. tracker_of m = Some tr \<and> tracker_contains b tr))) ids), t')"
  using reverse_scan_documented [OF assms, of "length ids" ids] assms
  by (auto simp: mgr_lookup_on_reverse_def store_lookup_on_reverse_def store_as_documented_def Let_def
      split: option.splits)

lemma mgr_lookup_all_documented:
  assumes "store_as_documented W store present"
  shows "fst (mgr_lookup_all W m store ids t) =
    Inr (map (\<lambda>b. present b \<and> \<not> (\<exists>tr. tracker_of m = Some tr \<and> tracker_contains b tr)) ids)"
  using assms
  by (auto simp: mgr_lookup_all_def store_lookup_def store_as_documented_def lookup_doc_def Let_def
      zip_map2 zip_same_conv_map split: option.splits)

section \<open>Dump histories\<close>

lemma ctx_blocks_simps [simp]:
  "ctx_blocks [] r = {}"
  "ctx_blocks ((r', S) # ctx) r = (if r' = r then S else {}) \<union> ctx_blocks ctx r"
  by (auto simp: ctx_blocks_def)

lemma ctx_blocks_empty: "r \<notin> fst ` set ctx \<Longrightarrow> ctx_blocks ctx r = {}"
  by (induction ctx) auto

lemma blocks_of_setdefault:
  "blocks_of (fold (\<lambda>(r, S). setdefault_update r S) ctx d) r = blocks_of d r \<union> ctx_blocks ctx r"
proof (induction ctx arbitrary: d)
  case (Cons p ctx)
  then show ?case
    by (cases p) (auto simp: setdefault_update_def blocks_of_def split: option.splits)
qed simp

lemma blocks_of_drop [simp]: "blocks_of (\<lambda>r. if r \<in> rs then None else d r) r = (if r \<in> rs then {} else blocks_of d r)"
  by (simp add: blocks_of_def)

lemma pending_request_ids_alt:
  assumes "dict_wf (dump_task_contexts m)"
  shows "r \<in> pending_request_ids m \<longleftrightarrow>
    (\<exists>tk p. map_of (dump_task_contexts m) tk = Some p \<and> r \<in> fst ` set (snd p))"
  using assms by (force simp: pending_request_ids_def dict_wf_def)

text \<open>Each operation by the store's answer.\<close>

lemma dump_step_rejected:
  assumes "enabled m" "w_dump_data W t store ids shards ptrs handle = Inl e"
  shows "dump_step W (OpSubmit store ctx ids shards ptrs handle) (m, t, hist) =
    (record_dump_failure ctx
       (m\<lparr>dump_blocks_by_request := fold (\<lambda>(r, S). setdefault_update r S) ctx (dump_blocks_by_request m)\<rparr>),
     t @ [DumpData store ids shards ptrs handle (Inl e)], Rejected ctx # hist)"
  using assms by (simp add: dump_step_def submit_dump_def store_dump_data_def Let_def)

lemma dump_step_accepted:
  assumes "enabled m" "w_dump_data W t store ids shards ptrs handle = Inr tk"
  shows "dump_step W (OpSubmit store ctx ids shards ptrs handle) (m, t, hist) =
    (m\<lparr>dump_blocks_by_request := fold (\<lambda>(r, S). setdefault_update r S) ctx (dump_blocks_by_request m),
       dump_task_contexts := AList.update tk (store, ctx) (dump_task_contexts m)\<rparr>,
     t @ [DumpData store ids shards ptrs handle (Inr tk)], Accepted tk ctx # hist)"
  using assms by (simp add: dump_step_def submit_dump_def store_dump_data_def Let_def)

lemma dump_step_waited:
  assumes "map_of (dump_task_contexts m) tk = Some (store, ctx)"
  shows "dump_step W (OpWait tk) (m, t, hist) =
    (let m' = m\<lparr>dump_task_contexts := AList.delete tk (dump_task_contexts m)\<rparr>
     in if isl (w_wait W t store tk) then record_dump_failure ctx m' else m',
     t @ [WaitTask store tk (w_wait W t store tk)], Waited tk (w_wait W t store tk) # hist)"
  using assms
  by (cases "w_wait W t store tk") (simp_all add: dump_step_def wait_dump_def store_wait_def Let_def)

lemma dump_step_unknown:
  "map_of (dump_task_contexts m) tk = None \<Longrightarrow> dump_step W (OpWait tk) (m, t, hist) = (m, t, hist)"
  by (simp add: dump_step_def)

lemma ledger_submit:
  assumes "ledger_inv (m, t, hist)"
  shows "ledger_inv (dump_step W (OpSubmit store ctx ids shards ptrs handle) (m, t, hist))"
proof (cases "w_dump_data W t store ids shards ptrs handle")
  case (Inl e)
  moreover have "enabled m" using assms by (simp add: ledger_inv_def)
  ultimately show ?thesis using assms
    by (simp add: dump_step_rejected) (auto simp: ledger_inv_def record_dump_failure_def blocks_of_setdefault)
next
  case (Inr tk)
  moreover have "enabled m" using assms by (simp add: ledger_inv_def)
  ultimately show ?thesis using assms
    by (simp add: dump_step_accepted)
      (auto simp: ledger_inv_def blocks_of_setdefault map_of_update keys_update dict_wf_update split: if_splits)
qed

lemma ledger_wait:
  assumes "ledger_inv (m, t, hist)"
  shows "ledger_inv (dump_step W (OpWait tk) (m, t, hist))"
proof (cases "map_of (dump_task_contexts m) tk")
  case None
  with assms show ?thesis by (simp add: dump_step_unknown)
next
  case (Some p)
  let ?ctx = "ctx_of_handle hist tk"
  from Some assms obtain store where ctx: "map_of (dump_task_contexts m) tk = Some (store, ?ctx)"
    by (cases p) (simp add: ledger_inv_def)
  let ?m = "m\<lparr>dump_task_contexts := AList.delete tk (dump_task_contexts m)\<rparr>"
  have "ledger_inv (if isl r then record_dump_failure ?ctx ?m else ?m, t', Waited tk r # hist)" for r t'
    using assms unfolding ledger_inv_def prod.case
    by (cases r)
      (simp_all add: record_dump_failure_def blocks_of_setdefault map_of_delete_eq keys_delete
        dict_wf_delete Un_commute)
  then show ?thesis by (simp only: dump_step_waited [OF ctx] Let_def)
qed

lemma ledger_finish:
  assumes "ledger_inv (m, t, hist)"
  shows "ledger_inv (dump_step W (OpFinish rs) (m, t, hist))"
  using assms
  by (simp add: dump_step_def finish_dump_def) (auto simp: ledger_inv_def)

lemma ledger_step: "ledger_inv st \<Longrightarrow> ledger_inv (dump_step W op st)"
  by (cases st; cases op) (auto simp: ledger_submit ledger_wait ledger_finish)

lemma ledger_run: "ledger_inv st \<Longrightarrow> ledger_inv (dump_run W ops st)"
  unfolding dump_run_def by (induction ops arbitrary: st) (simp_all add: ledger_step)

lemma ledger_init: "ledger_inv (init_manager is_scheduler True, t, [])"
  by (simp add: ledger_inv_def init_manager_def dict_wf_def blocks_of_def)

lemma fresh_step:
  assumes "fresh_handles W" "ledger_inv (m, t, hist)" "unwaited hist \<subseteq> live_tasks t" "fresh_notes hist"
    and "dump_step W op (m, t, hist) = (m', t', hist')"
  shows "unwaited hist' \<subseteq> live_tasks t' \<and> fresh_notes hist'"
proof (cases op)
  case (OpSubmit store ctx ids shards ptrs handle)
  moreover have "enabled m" using assms(2) by (simp add: ledger_inv_def)
  ultimately show ?thesis using assms(1,3-5)
    by (cases "w_dump_data W t store ids shards ptrs handle")
      (auto simp: dump_step_rejected dump_step_accepted fresh_handles_def)
next
  case (OpWait tk)
  show ?thesis
  proof (cases "map_of (dump_task_contexts m) tk")
    case (Some p)
    with OpWait assms(3-5) show ?thesis
      by (cases p) (auto simp: dump_step_waited)
  qed (use OpWait assms(3-5) in \<open>simp add: dump_step_unknown\<close>)
next
  case (OpFinish rs)
  with assms(3-5) show ?thesis
    by (auto simp: dump_step_def finish_dump_def split: if_splits)
qed

lemma fresh_run:
  assumes "fresh_handles W" "ledger_inv (m, t, hist)" "unwaited hist \<subseteq> live_tasks t" "fresh_notes hist"
    and "dump_run W ops (m, t, hist) = (m', t', hist')"
  shows "fresh_notes hist'"
  using assms(2-)
proof (induction ops arbitrary: m t hist)
  case (Cons op ops)
  obtain m1 t1 n1 where one: "dump_step W op (m, t, hist) = (m1, t1, n1)" by (cases "dump_step W op (m, t, hist)")
  from Cons.prems one Cons.IH [of m1 t1 n1] ledger_step [OF Cons.prems(1), of W op]
    fresh_step [OF assms(1) Cons.prems(1-3) one]
  show ?case by (simp add: dump_run_def)
qed (simp add: dump_run_def)

lemma not_failed_settled:
  assumes "fresh_notes hist" "b \<notin> failed_since_report hist r"
    and "\<And>tk. tk \<in> unwaited hist \<Longrightarrow> tk \<notin> ws \<Longrightarrow> b \<notin> ctx_blocks (ctx_of_handle hist tk) r"
  shows "settled ws hist r b"
  using assms
proof (induction ws hist r b rule: settled.induct)
  case (2 ws tk ctx hist r b)
  have "settled (ws - {tk}) hist r b"
  proof (rule "2.IH")
    show "b \<notin> ctx_blocks (ctx_of_handle hist tk') r" if "tk' \<in> unwaited hist" "tk' \<notin> ws - {tk}" for tk'
    proof -
      have "tk' \<noteq> tk" using that(1) "2.prems"(1) by auto
      with that "2.prems"(3) [of tk'] show ?thesis by simp
    qed
  qed (use "2.prems" in simp_all)
  with "2.prems"(3) [of tk] show ?case by auto
qed (auto split: if_splits)

lemma report_of_Cons: "report_of hist b earlier r \<Longrightarrow> report_of (n # hist) b earlier r"
  unfolding report_of_def by (metis append_Cons)

lemma report_of_here:
  "r \<in> rs \<Longrightarrow> b \<in> covered_since_report hist r \<Longrightarrow> b \<notin> failed_since_report hist r \<Longrightarrow>
   report_of (Finished rs # hist) b hist r"
  unfolding report_of_def by (metis append_Nil)

lemma reported_report: "b \<in> reported hist \<Longrightarrow> \<exists>earlier r. report_of hist b earlier r"
proof (induction hist)
  case (Cons n hist)
  show ?case
  proof (cases "b \<in> reported hist")
    case True
    with Cons.IH show ?thesis by (blast intro: report_of_Cons)
  next
    case False
    with Cons.prems obtain rs r where "n = Finished rs" "r \<in> rs"
      "b \<in> covered_since_report hist r" "b \<notin> failed_since_report hist r"
      by (cases n) auto
    then show ?thesis by (blast intro: report_of_here)
  qed
qed simp

lemma ledger_ctx:
  "ledger_inv (m, t, hist) \<Longrightarrow> map_of (dump_task_contexts m) tk = Some p \<Longrightarrow> snd p = ctx_of_handle hist tk"
  unfolding ledger_inv_def prod.case by blast

lemma no_pending_handles:
  assumes "ledger_inv (m, t, hist)" "rs \<inter> pending_request_ids m = {}" "r \<in> rs" "tk \<in> unwaited hist"
  shows "r \<notin> fst ` set (ctx_of_handle hist tk)"
proof -
  have inv: "dict_wf (dump_task_contexts m)" "fst ` set (dump_task_contexts m) = unwaited hist"
    using assms(1) by (simp_all add: ledger_inv_def)
  with assms(4) obtain p where p: "map_of (dump_task_contexts m) tk = Some p"
    by (metis map_of_eq_None_iff not_Some_eq)
  have "r \<notin> pending_request_ids m" using assms(2,3) by blast
  with p inv(1) ledger_ctx [OF assms(1) p] show ?thesis by (metis pending_request_ids_alt)
qed

lemma clean_step:
  assumes "ledger_inv (m, t, hist)" "clean_reports hist" "dump_step W op (m, t, hist) = (m', t', hist')"
  shows "clean_reports hist'"
proof (cases op)
  case (OpSubmit store ctx ids shards ptrs handle)
  moreover have "enabled m" using assms(1) by (simp add: ledger_inv_def)
  ultimately show ?thesis using assms(2,3)
    by (cases "w_dump_data W t store ids shards ptrs handle")
      (auto simp: dump_step_rejected dump_step_accepted)
next
  case (OpWait tk)
  with assms(2,3) show ?thesis
    by (cases "map_of (dump_task_contexts m) tk") (auto simp: dump_step_unknown dump_step_waited)
next
  case (OpFinish rs)
  have "enabled m" using assms(1) by (simp add: ledger_inv_def)
  with OpFinish assms(2,3) no_pending_handles [OF assms(1)] show ?thesis
    by (auto simp: dump_step_def finish_dump_def split: if_splits)
qed

lemma clean_run:
  assumes "ledger_inv st" "clean_reports (snd (snd st))"
  shows "clean_reports (snd (snd (dump_run W ops st)))"
  using assms
proof (induction ops arbitrary: st)
  case (Cons op ops)
  have "clean_reports (snd (snd (dump_step W op st)))"
    using Cons.prems clean_step by (metis prod.collapse)
  with Cons ledger_step [OF Cons.prems(1)] show ?case by (simp add: dump_run_def)
qed (simp add: dump_run_def)

lemma clean_reports_suffix: "clean_reports (later @ hist) \<Longrightarrow> clean_reports hist"
proof (induction later)
  case (Cons n later)
  then show ?case by (cases n) auto
qed simp

lemma fresh_notes_suffix: "fresh_notes (later @ hist) \<Longrightarrow> fresh_notes hist"
proof (induction later)
  case (Cons n later)
  then show ?case by (cases n) auto
qed simp

lemma report_settled:
  assumes "report_of hist b earlier r" "clean_reports hist" "fresh_notes hist"
  shows "settled {} earlier r b"
proof -
  from assms(1) obtain later rs where "hist = later @ Finished rs # earlier" "r \<in> rs"
    "b \<notin> failed_since_report earlier r"
    by (auto simp: report_of_def)
  with clean_reports_suffix [of later "Finished rs # earlier"]
    fresh_notes_suffix [of later "Finished rs # earlier"] assms(2,3)
  show ?thesis
    by (intro not_failed_settled) (auto simp: ctx_blocks_empty)
qed


lemma aggregate_all_ok:
  "wm_is_mla wm = k \<Longrightarrow> \<forall>o' \<in> set others. wm_is_mla o' = k \<Longrightarrow> \<exists>res. aggregate_all wm others = Inr res"
  by (induction others arbitrary: wm) (simp_all add: aggregate_def)

section \<open>Properties\<close>

text \<open>
  C1: a block the worker reports to the scheduler as dumped really was. For every world with
  distinct live handles and every sequence of submissions, waits and finishes on a fresh
  manager, a reported block was submitted for some finished request, and every submission
  covering it since that request's previous report was accepted by the store and its wait
  succeeded; in particular a failure the manager swallows (an unhealthy store) keeps the
  block out of the report.
\<close>

theorem dump_report_sound:
  assumes "fresh_handles W"
    and "dump_run W ops (init_manager is_scheduler True, [], []) = (m, t, hist)"
    and "b \<in> dump_succeeded_blocks m"
  shows "\<exists>later rs earlier r. hist = later @ Finished rs # earlier \<and> r \<in> rs \<and>
    b \<in> covered_since_report earlier r \<and> settled {} earlier r b"
proof -
  have inv: "ledger_inv (init_manager is_scheduler True, [], [])" by (rule ledger_init)
  have "ledger_inv (m, t, hist)" using ledger_run [OF inv, of W ops] assms(2) by simp
  with assms(3) have "b \<in> reported hist" by (simp add: ledger_inv_def)
  then obtain earlier r where rep: "report_of hist b earlier r" using reported_report by blast
  moreover have "clean_reports hist" using clean_run [OF inv, of W ops] assms(2) by simp
  moreover have "fresh_notes hist" using fresh_run [OF assms(1) inv _ _ assms(2)] by simp
  ultimately have "settled {} earlier r b" by (rule report_settled)
  with rep show ?thesis unfolding report_of_def by blast
qed

lemma dump_report_sound_witness:
  "\<exists>m t hist. fresh_handles (script_world []) \<and>
     dump_run (script_world []) example_ops (init_manager False True, [], []) = (m, t, hist) \<and>
     ''a'' \<in> dump_succeeded_blocks m \<and>
     (\<exists>later rs earlier r. hist = later @ Finished rs # earlier \<and> r \<in> rs \<and>
        ''a'' \<in> covered_since_report earlier r \<and> settled {} earlier r ''a'')"
proof -
  obtain m t hist where run: "dump_run (script_world []) example_ops (init_manager False True, [], []) = (m, t, hist)"
    by (metis prod.exhaust)
  have "''a'' \<in> dump_succeeded_blocks (fst (dump_run (script_world []) example_ops (init_manager False True, [], [])))"
    by (simp add: example_ops_def dump_run_def dump_step_def submit_dump_def wait_dump_def finish_dump_def
        store_dump_data_def store_wait_def script_world_def init_manager_def next_handle_def Let_def
        setdefault_update_def pending_request_ids_def blocks_of_def)
  with run have a: "''a'' \<in> dump_succeeded_blocks m" by simp
  show ?thesis
    by (rule exI [of _ m], rule exI [of _ t], rule exI [of _ hist])
      (intro conjI script_world_fresh run a dump_report_sound [OF script_world_fresh run a])
qed

text \<open>
  C8: a prefix lookup through the manager counts exactly the leading blocks that the store
  holds and the scheduler has not marked as missing on some rank: the answer plus one is the
  length of the longest prefix of such blocks.
\<close>

theorem lookup_on_prefix_skips_marked:
  assumes "store_as_documented W store present" "enabled m" "tracker_of m = Some tr"
  shows "fst (mgr_lookup_on_prefix W m store ids t) =
    Inr (int (length (takeWhile (\<lambda>b. present b \<and> b \<notin> inconsistent tr) ids)) - 1)"
  using mgr_prefix_documented [OF assms(1), of m ids t] assms(2,3)
  by (simp add: lookup_on_prefix_doc_def tracker_contains_def)

lemma lookup_on_prefix_skips_marked_witness:
  "fst (mgr_lookup_on_prefix (script_world [''a'', ''b'', ''c''])
      ((init_manager True True)\<lparr>tracker_of := Some \<lparr>inconsistent = {''c''}\<rparr>\<rparr>) 0 [''a'', ''b'', ''c''] []) =
    Inr 1"
proof -
  let ?tr = "\<lparr>inconsistent = {''c''}\<rparr>"
  let ?m = "(init_manager True True)\<lparr>tracker_of := Some ?tr\<rparr>"
  have "enabled ?m" "tracker_of ?m = Some ?tr" by (simp_all add: init_manager_def)
  from lookup_on_prefix_skips_marked [OF script_world_documented this, of _ 0 "[''a'', ''b'', ''c'']" "[]"]
  show ?thesis by simp
qed

text \<open>
  C13: a reverse lookup through the manager always returns when the store answers as
  documented, and its answer is the rightmost block that is present and unmarked: each
  marked hit is stepped over and the scan continues to its left.
\<close>

theorem lookup_on_reverse_skips_marked:
  assumes "store_as_documented W store present" "enabled m" "tracker_of m = Some tr"
  shows "\<exists>res t'. mgr_lookup_on_reverse W m store ids t = Some (Inr res, t') \<and>
    - 1 \<le> res \<and> res < int (length ids) \<and>
    (res \<ge> 0 \<longrightarrow> present (ids ! nat res) \<and> ids ! nat res \<notin> inconsistent tr) \<and>
    (\<forall>j < length ids. res < int j \<longrightarrow> \<not> present (ids ! j) \<or> ids ! j \<in> inconsistent tr)"
proof -
  let ?q = "\<lambda>b. present b \<and> \<not> tracker_contains b tr"
  let ?res = "lookup_on_reverse_doc ?q ids"
  obtain t' where run: "mgr_lookup_on_reverse W m store ids t = Some (Inr ?res, t')"
    using mgr_reverse_documented [OF assms(1), of m ids t] assms(2,3) by auto
  show ?thesis
  proof (cases "?res = - 1")
    case True
    then have "\<forall>b \<in> set ids. \<not> ?q b" by (simp add: reverse_doc_none_iff)
    with run True show ?thesis by (auto simp: tracker_contains_def)
  next
    case False
    with reverse_doc_bounds [of ?q ids] have "0 \<le> ?res" by linarith
    then obtain i where i: "?res = int i" by (rule nonneg_int_cases)
    with run have "mgr_lookup_on_reverse W m store ids t = Some (Inr (int i), t')" by simp
    with iffD1 [OF reverse_doc_eq_iff i] show ?thesis
      by (intro exI [of _ "int i"] exI [of _ t']) (auto simp: tracker_contains_def)
  qed
qed

lemma lookup_on_reverse_skips_marked_witness:
  "\<exists>res t'. mgr_lookup_on_reverse (script_world [''a'', ''c''])
      ((init_manager True True)\<lparr>tracker_of := Some \<lparr>inconsistent = {''c''}\<rparr>\<rparr>) 0 [''a'', ''b'', ''c''] [] =
    Some (Inr res, t') \<and> res < 2"
proof -
  let ?tr = "\<lparr>inconsistent = {''c''}\<rparr>"
  let ?m = "(init_manager True True)\<lparr>tracker_of := Some ?tr\<rparr>"
  have "enabled ?m" "tracker_of ?m = Some ?tr" by (simp_all add: init_manager_def)
  from lookup_on_reverse_skips_marked [OF script_world_documented this, of "[''a'', ''c'']" 0 "[''a'', ''b'', ''c'']" "[]"]
  obtain res t' where run: "mgr_lookup_on_reverse (script_world [''a'', ''c'']) ?m 0 [''a'', ''b'', ''c''] [] = Some (Inr res, t')"
    and "res < 3" and hit: "res \<ge> 0 \<longrightarrow> [''a'', ''b'', ''c''] ! nat res \<notin> inconsistent ?tr"
    by auto
  have "res \<noteq> 2" using hit by auto
  with \<open>res < 3\<close> have "res < 2" by linarith
  with run show ?thesis by blast
qed

text \<open>
  C14: the tracker never grows past its limit, whatever the worker reports; and while the
  reported blocks fit, applying a step's metadata clears the dumped blocks first and marks
  the missing ones after, so a fresh mark survives a dump success reported with it.
\<close>

theorem apply_worker_meta_contract:
  assumes "set_impl_ok P" "tracker_of m = Some tr" "finite (inconsistent tr)" "finite (wm_missing_blocks wm)"
    and "card (inconsistent tr) \<le> MAX_INCONSISTENT_BLOCKS"
  shows "\<exists>tr'. tracker_of (apply_worker_meta P wm m) = Some tr' \<and> finite (inconsistent tr') \<and>
    card (inconsistent tr') \<le> MAX_INCONSISTENT_BLOCKS \<and>
    (card ((inconsistent tr - wm_dump_succeeded_blocks wm) \<union> wm_missing_blocks wm) \<le> MAX_INCONSISTENT_BLOCKS \<longrightarrow>
     inconsistent tr' = (inconsistent tr - wm_dump_succeeded_blocks wm) \<union> wm_missing_blocks wm)"
  using apply_worker_meta_bound [OF assms] apply_worker_meta_room [OF assms(1-4)] by auto

lemma apply_worker_meta_contract_witness:
  "\<exists>tr'. tracker_of (apply_worker_meta sorted_impl
      ((empty_worker_meta False)\<lparr>wm_missing_blocks := {''b''}, wm_dump_succeeded_blocks := {''a'', ''b''}\<rparr>)
      ((init_manager True True)\<lparr>tracker_of := Some \<lparr>inconsistent = {''a''}\<rparr>\<rparr>)) = Some tr' \<and>
    inconsistent tr' = {''b''}"
  using apply_worker_meta_contract [OF sorted_impl_ok,
      of "(init_manager True True)\<lparr>tracker_of := Some \<lparr>inconsistent = {''a''}\<rparr>\<rparr>" "\<lparr>inconsistent = {''a''}\<rparr>"
        "(empty_worker_meta False)\<lparr>wm_missing_blocks := {''b''}, wm_dump_succeeded_blocks := {''a'', ''b''}\<rparr>"]
  by (auto simp: MAX_INCONSISTENT_BLOCKS_def)



end
