(* ===== verification/Request_Hasher.thy ===== *)
theory Request_Hasher
  imports Vllm_Config
begin

text \<open>
  src/ucm/integration/vllm/request_hasher.py: block identifiers as a hash chain over the
  full blocks of a request. MD5, pickling and vLLM's generator of extra hash keys are
  parameters (\<open>hash_env\<close>).
\<close>

section \<open>Requests and the hashing environment\<close>

type_synonym extra_keys = "string list option"

record request =
  request_id :: string
  all_token_ids :: "int list"
  has_mm_features :: bool
  has_lora_request :: bool
  has_cache_salt :: bool
  has_prompt_embeds :: bool

datatype hash_input =
    BytesInput bytes
  | TextInput string
  | BlockInput bytes "int list" extra_keys

record hash_env =
  md5 :: "bytes \<Rightarrow> bytes"
  pickle_dumps :: "hash_input \<Rightarrow> bytes"
  generate_block_hash_extra_keys :: "(request \<Rightarrow> int \<Rightarrow> int \<Rightarrow> int \<Rightarrow> (extra_keys \<times> int) res) option"

section \<open>The hasher\<close>

definition request_has_extra_hash_semantics :: "request \<Rightarrow> bool" where
  "request_has_extra_hash_semantics request =
     (has_mm_features request \<or> has_lora_request request \<or> has_cache_salt request \<or>
      has_prompt_embeds request)"

definition validate_request_hash_semantics :: "hash_env \<Rightarrow> request \<Rightarrow> unit res" where
  "validate_request_hash_semantics E request =
     (if generate_block_hash_extra_keys E = None \<and> request_has_extra_hash_semantics request
      then Inl (RequestHashError ''extra keys unavailable'')
      else Inr ())"

definition generate_extra_keys ::
  "hash_env \<Rightarrow> request \<Rightarrow> int \<Rightarrow> int \<Rightarrow> int \<Rightarrow> (extra_keys \<times> int) res" where
  "generate_extra_keys E request start_token_idx end_token_idx start_mm_idx =
     (case generate_block_hash_extra_keys E of
        None \<Rightarrow> Inr (None, start_mm_idx)
      | Some gen \<Rightarrow>
          (case gen request start_token_idx end_token_idx start_mm_idx of
             Inr r \<Rightarrow> Inr r
           | Inl _ \<Rightarrow> Inl (RequestHashError ''extra keys failed'')))"

record request_hasher =
  meta_bytes :: bytes
  seed :: bytes

definition hasher_input :: "hash_env \<Rightarrow> bytes \<Rightarrow> hash_input \<Rightarrow> bytes" where
  "hasher_input E meta input_data =
     meta @ (case input_data of BytesInput b \<Rightarrow> b | _ \<Rightarrow> pickle_dumps E input_data)"

definition hasher_call :: "hash_env \<Rightarrow> bytes \<Rightarrow> hash_input \<Rightarrow> bytes" where
  "hasher_call E meta input_data = md5 E (hasher_input E meta input_data)"

definition init_request_hasher :: "hash_env \<Rightarrow> string \<Rightarrow> request_hasher" where
  "init_request_hasher E meta =
     \<lparr> meta_bytes = meta, seed = hasher_call E meta (TextInput ''UCM_HASH_SEED'') \<rparr>"

text \<open>The values of \<open>range(0, n, step)\<close> for a positive step.\<close>

definition range_step :: "nat \<Rightarrow> nat \<Rightarrow> nat list" where
  "range_step n step = map (\<lambda>i. i * step) [0..<(n + step - 1) div step]"

fun hash_loop ::
  "hash_env \<Rightarrow> bytes \<Rightarrow> request \<Rightarrow> nat \<Rightarrow> nat list \<Rightarrow> bytes \<Rightarrow> int \<Rightarrow> bytes list \<Rightarrow> bytes list res" where
  "hash_loop E meta request block_size [] parent mm block_hashes = Inr block_hashes"
| "hash_loop E meta request block_size (start # starts) parent mm block_hashes =
     (let stop = start + block_size; token_ids = all_token_ids request
      in if stop > length token_ids then Inr block_hashes
         else case generate_extra_keys E request (int start) (int stop) mm of
                Inl e \<Rightarrow> Inl e
              | Inr (keys, mm') \<Rightarrow>
                  let parent' = hasher_call E meta
                        (BlockInput parent (py_slice token_ids (int start) (int stop)) keys)
                  in hash_loop E meta request block_size starts parent' mm' (block_hashes @ [parent']))"

definition hash_request :: "hash_env \<Rightarrow> bytes \<Rightarrow> nat \<Rightarrow> bytes \<Rightarrow> request \<Rightarrow> bytes list res" where
  "hash_request E meta block_size chain_root request =
     (case validate_request_hash_semantics E request of
        Inl e \<Rightarrow> Inl e
      | Inr _ \<Rightarrow>
          hash_loop E meta request block_size
            (range_step (length (all_token_ids request)) block_size) chain_root 0 [])"

definition make_request_block_hasher ::
  "hash_env \<Rightarrow> request_hasher \<Rightarrow> int \<Rightarrow> bytes option \<Rightarrow> (request \<Rightarrow> bytes list res) res" where
  "make_request_block_hasher E h block_size initial_hash =
     (if block_size \<le> 0 then Inl (ValueError ''block_size must be positive'')
      else let chain_root = (case initial_hash of None \<Rightarrow> seed h | Some b \<Rightarrow> b)
           in Inr (hash_request E (meta_bytes h) (nat block_size) chain_root))"

section \<open>The chain as a fold\<close>

text \<open>
  What the loop computes: full block \<open>k\<close> is the window \<open>[k * bs, (k + 1) * bs)\<close>, its extra
  keys come from running the generator over the windows before it, and its identifier is the
  hash of the previous identifier, the window's tokens and the keys.
\<close>

fun extra_from :: "hash_env \<Rightarrow> request \<Rightarrow> nat \<Rightarrow> nat \<Rightarrow> nat \<Rightarrow> int \<Rightarrow> extra_keys list res" where
  "extra_from E request bs k 0 mm = Inr []"
| "extra_from E request bs k (Suc n) mm =
     (case generate_extra_keys E request (int (k * bs)) (int (k * bs + bs)) mm of
        Inl e \<Rightarrow> Inl e
      | Inr (keys, mm') \<Rightarrow>
          (case extra_from E request bs (Suc k) n mm' of Inl e \<Rightarrow> Inl e | Inr ks \<Rightarrow> Inr (keys # ks)))"

fun chain :: "hash_env \<Rightarrow> bytes \<Rightarrow> bytes \<Rightarrow> (int list \<times> extra_keys) list \<Rightarrow> bytes list" where
  "chain E meta parent [] = []"
| "chain E meta parent ((toks, keys) # ws) =
     (let h = hasher_call E meta (BlockInput parent toks keys) in h # chain E meta h ws)"

definition windows :: "int list \<Rightarrow> nat \<Rightarrow> nat \<Rightarrow> nat \<Rightarrow> int list list" where
  "windows toks bs k n = map (\<lambda>i. take bs (drop (i * bs) toks)) [k..<k + n]"

text \<open>The inputs whose digests make up a chain.\<close>

fun chain_args :: "hash_env \<Rightarrow> bytes \<Rightarrow> bytes \<Rightarrow> (int list \<times> extra_keys) list \<Rightarrow> hash_input list" where
  "chain_args E meta parent [] = []"
| "chain_args E meta parent ((toks, keys) # ws) =
     BlockInput parent toks keys #
     chain_args E meta (hasher_call E meta (BlockInput parent toks keys)) ws"

definition request_blocks :: "hash_env \<Rightarrow> nat \<Rightarrow> request \<Rightarrow> (int list \<times> extra_keys) list res" where
  "request_blocks E bs request =
     (let n = length (all_token_ids request) div bs
      in case extra_from E request bs 0 n 0 of
           Inl e \<Rightarrow> Inl e
         | Inr ks \<Rightarrow> Inr (zip (windows (all_token_ids request) bs 0 n) ks))"

text \<open>A small environment for evaluation: no extra keys, and digests that print their input.\<close>

definition plain_env :: hash_env where
  "plain_env =
     \<lparr> md5 = (\<lambda>b. b),
       pickle_dumps = (\<lambda>x. case x of BytesInput b \<Rightarrow> b | TextInput s \<Rightarrow> ''T'' @ s
                        | BlockInput p toks keys \<Rightarrow> ''B'' @ p @ concat (map (\<lambda>i. '','' @ str_of_int i) toks)),
       generate_block_hash_extra_keys = None \<rparr>"

definition plain_request :: "int list \<Rightarrow> request" where
  "plain_request toks =
     \<lparr> request_id = ''r'', all_token_ids = toks, has_mm_features = False, has_lora_request = False,
       has_cache_salt = False, has_prompt_embeds = False \<rparr>"

section \<open>Facts\<close>

lemma length_range_step: "0 < step \<Longrightarrow> length (range_step n step) = (n + step - 1) div step"
  by (simp add: range_step_def)

lemma length_chain [simp]: "length (chain E meta p ws) = length ws"
  by (induction E meta p ws rule: chain.induct) (simp_all add: Let_def)

lemma chain_eq_Nil [simp]: "chain E meta p ws = [] \<longleftrightarrow> ws = []"
  by (cases "(E, meta, p, ws)" rule: chain.cases) (simp_all add: Let_def)


lemma hash_loop_chain:
  assumes "0 < bs" "n = length (all_token_ids request) div bs" "n \<le> m" "k \<le> n"
  shows "hash_loop E meta request bs (map (\<lambda>i. i * bs) [k..<m]) parent mm acc =
    (case extra_from E request bs k (n - k) mm of
       Inl e \<Rightarrow> Inl e
     | Inr ks \<Rightarrow> Inr (acc @ chain E meta parent (zip (windows (all_token_ids request) bs k (n - k)) ks)))"
  using assms(4)
proof (induction "n - k" arbitrary: k parent mm acc)
  case 0
  then have "k = n" by simp
  show ?case
  proof (cases "n < m")
    case True
    have "length (all_token_ids request) < n * bs + bs"
      using assms(1,2) by (metis add.commute dividend_less_times_div mult.commute mult_Suc)
    with True \<open>k = n\<close> show ?thesis by (simp add: upt_conv_Cons windows_def)
  next
    case False
    with assms(3) \<open>k = n\<close> show ?thesis by (simp add: windows_def)
  qed
next
  case (Suc d)
  then have "k < n" by simp
  then have fits: "k * bs + bs \<le> length (all_token_ids request)"
    using assms(1,2) by (metis Suc_leI add.commute div_times_less_eq_dividend mult_Suc mult_le_mono1 order_trans)
  have cons: "[k..<m] = k # [Suc k..<m]" using \<open>k < n\<close> assms(3) by (simp add: upt_conv_Cons)
  have slice: "py_slice (all_token_ids request) (int k * int bs) (int k * int bs + int bs) =
    take bs (drop (k * bs) (all_token_ids request))"
    using fits py_slice_nonneg [of "int (k * bs)" "int (k * bs + bs)" "all_token_ids request"]
    by (simp add: nat_add_distrib nat_mult_distrib)
  have win: "windows (all_token_ids request) bs k (Suc (n - Suc k)) =
    take bs (drop (k * bs) (all_token_ids request)) # windows (all_token_ids request) bs (Suc k) (n - Suc k)"
    by (simp add: windows_def upt_conv_Cons del: upt_Suc)
  have "n - k = Suc (n - Suc k)" using \<open>k < n\<close> by simp
  then show ?case
    using Suc.hyps(1) [of "Suc k"] Suc.hyps(2) \<open>k < n\<close> fits
    by (simp add: cons win slice Let_def split: sum.splits prod.splits)
qed

lemma length_windows [simp]: "length (windows toks bs k n) = n"
  by (simp add: windows_def)

lemma length_extra_from: "extra_from E request bs k n mm = Inr ks \<Longrightarrow> length ks = n"
  by (induction n arbitrary: k mm ks) (auto split: sum.splits)

lemma hash_request_blocks:
  assumes "0 < bs"
  shows "hash_request E meta bs p request =
    (case validate_request_hash_semantics E request of
       Inl e \<Rightarrow> Inl e
     | Inr _ \<Rightarrow>
         (case request_blocks E bs request of Inl e \<Rightarrow> Inl e | Inr ws \<Rightarrow> Inr (chain E meta p ws)))"
proof -
  let ?n = "length (all_token_ids request)"
  have "?n div bs \<le> (?n + bs - 1) div bs" using assms by (intro div_le_mono) simp
  from hash_loop_chain [OF assms refl this, of 0 E meta p 0 "[]"] show ?thesis
    by (simp add: hash_request_def range_step_def request_blocks_def Let_def split: sum.splits)
qed

lemma hash_request_InrD:
  assumes "0 < bs" "hash_request E meta bs p request = Inr hs"
  obtains ws where "request_blocks E bs request = Inr ws" "hs = chain E meta p ws"
  using assms by (auto simp: hash_request_blocks split: sum.splits)

lemma length_request_blocks:
  "request_blocks E bs request = Inr ws \<Longrightarrow> length ws = length (all_token_ids request) div bs"
  by (auto simp: request_blocks_def Let_def dest: length_extra_from split: sum.splits)

lemma length_hash_request:
  assumes "0 < bs" "hash_request E meta bs p request = Inr hs"
  shows "length hs = length (all_token_ids request) div bs"
  using hash_request_InrD [OF assms] length_request_blocks by (metis length_chain)

lemma chain_nth:
  "i < length ws \<Longrightarrow> chain E meta p ws ! i = hasher_call E meta (chain_args E meta p ws ! i)"
proof (induction E meta p ws arbitrary: i rule: chain.induct)
  case (2 E meta p toks keys ws)
  then show ?case by (cases i) (simp_all add: Let_def)
qed simp

lemma length_chain_args [simp]: "length (chain_args E meta p ws) = length ws"
  by (induction E meta p ws rule: chain_args.induct) simp_all

lemma chain_args_nth:
  "i < length ws \<Longrightarrow> chain_args E meta p ws ! i =
   BlockInput (if i = 0 then p else chain E meta p ws ! (i - 1)) (fst (ws ! i)) (snd (ws ! i))"
proof (induction E meta p ws arbitrary: i rule: chain_args.induct)
  case (2 E meta p toks keys ws)
  then show ?case
    by (cases i) (auto simp: Let_def nth_Cons split: nat.splits)
qed simp

text \<open>
  Where the digest does not collide on the inputs in use, equal identifiers have equal
  histories.
\<close>

lemma chain_injective:
  assumes inj: "inj_on (hasher_call E meta) (insert s (set (chain_args E meta p ws) \<union> set (chain_args E meta p vs)))"
    and p: "p = hasher_call E meta s" and s: "\<And>q toks ks. s \<noteq> BlockInput q toks ks"
    and "i < length ws" "j < length vs" "chain E meta p ws ! i = chain E meta p vs ! j"
  shows "i = j \<and> take (Suc i) ws = take (Suc j) vs"
proof -
  have args: "chain_args E meta p ws ! i = chain_args E meta p vs ! j"
    if "i < length ws" "j < length vs" "chain E meta p ws ! i = chain E meta p vs ! j" for i j
    using inj_onD [OF inj, of "chain_args E meta p ws ! i" "chain_args E meta p vs ! j"] that
    by (simp add: chain_nth)
  have not_seed: "p \<noteq> chain E meta p us ! k" if "k < length us" "us = ws \<or> us = vs" for us k
  proof
    assume "p = chain E meta p us ! k"
    then have "hasher_call E meta s = hasher_call E meta (chain_args E meta p us ! k)"
      using that(1) by (simp add: chain_nth [symmetric] p [symmetric])
    with inj_onD [OF inj, of s "chain_args E meta p us ! k"] that
    have "s = chain_args E meta p us ! k" by auto
    with s that(1) show False by (metis chain_args_nth)
  qed
  show ?thesis using assms(4-)
  proof (induction i arbitrary: j)
    case 0
    have "j = 0"
    proof (rule ccontr)
      assume "j \<noteq> 0"
      with args [OF 0] 0 have "p = chain E meta p vs ! (j - 1)" by (simp add: chain_args_nth)
      with not_seed [of "j - 1" vs] 0 show False by simp
    qed
    with args [OF 0] 0 show ?case by (cases ws; cases vs) (auto simp: chain_args_nth prod_eq_iff)
  next
    case (Suc i)
    note eq = args [OF Suc.prems]
    show ?case
    proof (cases j)
      case 0
      with eq Suc.prems have "p = chain E meta p ws ! i" by (simp add: chain_args_nth)
      with not_seed [of i ws] Suc.prems show ?thesis by simp
    next
      case (Suc j')
      with eq Suc.prems have "chain E meta p ws ! i = chain E meta p vs ! j'" "ws ! Suc i = vs ! Suc j'"
        by (simp_all add: chain_args_nth prod_eq_iff)
      with Suc.IH [of j'] Suc.prems Suc show ?thesis by (auto simp: take_Suc_conv_app_nth)
    qed
  qed
qed

lemma concat_windows: "m * bs \<le> length toks \<Longrightarrow> concat (windows toks bs 0 m) = take (m * bs) toks"
proof (induction m)
  case (Suc m)
  then show ?case by (simp add: windows_def take_add add.commute [of bs])
qed (simp add: windows_def)

lemma take_windows: "m \<le> n \<Longrightarrow> take m (windows toks bs 0 n) = windows toks bs 0 m"
  by (simp add: windows_def take_map take_upt)




text \<open>
  What a scheduler relies on: one identifier per full block.
\<close>

locale block_hasher =
  fixes hash :: "request \<Rightarrow> bytes list res" and bs :: nat
  assumes bs_pos: "0 < bs"
    and one_per_block: "hash r = Inr hs \<Longrightarrow> length hs = length (all_token_ids r) div bs"
begin

lemma covers: "hash r = Inr hs \<Longrightarrow> length hs * bs \<le> length (all_token_ids r)"
  by (simp add: one_per_block)

lemma no_more: "hash r = Inr hs \<Longrightarrow> length (all_token_ids r) < (length hs + 1) * bs"
  using bs_pos by (simp add: one_per_block) (metis add.commute dividend_less_times_div mult.commute)

lemma prompt_blocks_exist:
  "hash r = Inr hs \<Longrightarrow> k * bs \<le> length (all_token_ids r) \<Longrightarrow> k \<le> length hs"
  using bs_pos by (simp add: one_per_block less_eq_div_iff_mult_less_eq)

end

interpretation chain_hasher: block_hasher "hash_request E meta (Suc b) p" "Suc b" for E meta b p
  by unfold_locales (simp_all add: length_hash_request)

text \<open>The environment for evaluation.\<close>

lemma plain_valid: "validate_request_hash_semantics plain_env (plain_request toks) = Inr ()"
  by (simp add: validate_request_hash_semantics_def plain_request_def request_has_extra_hash_semantics_def)

lemma plain_keys: "generate_extra_keys plain_env r a b mm = Inr (None, mm)"
  by (simp add: generate_extra_keys_def plain_env_def)

lemma plain_extra: "extra_from plain_env r bs k n mm = Inr (replicate n None)"
  by (induction n arbitrary: k mm) (simp_all add: plain_keys)

lemma plain_blocks:
  "request_blocks plain_env bs (plain_request toks) =
   Inr (zip (windows toks bs 0 (length toks div bs)) (replicate (length toks div bs) None))"
  by (simp add: request_blocks_def plain_extra plain_request_def Let_def)


section \<open>Properties\<close>



text \<open>
  C9: identifiers name content. If the digest does not collide on the inputs of two
  requests' chains and the seed, then equal identifiers, at any two positions, are at the
  same position and stand for the same tokens from the start of the prompt and the same
  extra keys: a block fetched by its identifier belongs to this prefix and no other.
\<close>

theorem equal_hash_equal_prefix:
  assumes "0 < bs"
    and "hash_request E meta bs (seed (init_request_hasher E meta)) r = Inr hs"
    and "hash_request E meta bs (seed (init_request_hasher E meta)) r' = Inr hs'"
    and "request_blocks E bs r = Inr ws" "request_blocks E bs r' = Inr vs"
    and "inj_on (hasher_call E meta) (insert (TextInput ''UCM_HASH_SEED'')
          (set (chain_args E meta (seed (init_request_hasher E meta)) ws) \<union>
           set (chain_args E meta (seed (init_request_hasher E meta)) vs)))"
    and "i < length hs" "j < length hs'" "hs ! i = hs' ! j"
  shows "i = j \<and> map snd (take (Suc i) ws) = map snd (take (Suc i) vs) \<and>
    take (Suc i * bs) (all_token_ids r) = take (Suc i * bs) (all_token_ids r')"
proof -
  let ?p = "seed (init_request_hasher E meta)"
  have hs: "hs = chain E meta ?p ws" "hs' = chain E meta ?p vs"
    using hash_request_InrD [OF assms(1,2)] hash_request_InrD [OF assms(1,3)] assms(4,5) by (metis Inr_inject)+
  have p: "?p = hasher_call E meta (TextInput ''UCM_HASH_SEED'')" by (simp add: init_request_hasher_def)
  have eq: "i = j \<and> take (Suc i) ws = take (Suc j) vs"
    using chain_injective [OF assms(6) p] assms(7-9) by (simp add: hs)
  have toks: "take (Suc i * bs) (all_token_ids q) = concat (map fst (take (Suc i) us))"
    if us: "request_blocks E bs q = Inr us" and i: "i < length us" for q us
  proof -
    let ?n = "length (all_token_ids q) div bs"
    obtain ks where ks: "extra_from E q bs 0 ?n 0 = Inr ks" "us = zip (windows (all_token_ids q) bs 0 ?n) ks"
      using us by (auto simp: request_blocks_def Let_def split: sum.splits)
    then have "map fst us = windows (all_token_ids q) bs 0 ?n" using length_extra_from by simp
    moreover have "Suc i \<le> ?n" using i length_request_blocks [OF us] by simp
    moreover from this have "Suc i * bs \<le> length (all_token_ids q)"
      using assms(1) by (simp add: less_eq_div_iff_mult_less_eq)
    ultimately show ?thesis by (simp only: take_map [symmetric] take_windows concat_windows)
  qed
  from toks [OF assms(4)] toks [OF assms(5)] eq assms(7,8) show ?thesis by (auto simp: hs)
qed

lemma equal_hash_equal_prefix_witness:
  "\<exists>hs hs'. hash_request plain_env ''m'' 1 (seed (init_request_hasher plain_env ''m'')) (plain_request [7]) = Inr hs \<and>
     hash_request plain_env ''m'' 1 (seed (init_request_hasher plain_env ''m'')) (plain_request [7, 8]) = Inr hs' \<and>
     hs ! 0 = hs' ! 0 \<and> take 1 (all_token_ids (plain_request [7])) = take 1 (all_token_ids (plain_request [7, 8]))"
proof -
  let ?p = "seed (init_request_hasher plain_env ''m'')"
  let ?ws = "[([7::int], None)] :: (int list \<times> extra_keys) list"
  let ?vs = "[([7::int], None), ([8], None)] :: (int list \<times> extra_keys) list"
  have ws: "request_blocks plain_env 1 (plain_request [7]) = Inr ?ws"
    and vs: "request_blocks plain_env 1 (plain_request [7, 8]) = Inr ?vs"
    by (simp_all add: plain_blocks windows_def numeral_2_eq_2)
  have hs: "hash_request plain_env ''m'' 1 ?p (plain_request [7]) = Inr (chain plain_env ''m'' ?p ?ws)"
    and hs': "hash_request plain_env ''m'' 1 ?p (plain_request [7, 8]) = Inr (chain plain_env ''m'' ?p ?vs)"
    by (simp_all add: hash_request_blocks plain_valid ws [unfolded One_nat_def] vs [unfolded One_nat_def])
  have inj: "inj_on (hasher_call plain_env ''m'') (insert (TextInput ''UCM_HASH_SEED'')
      (set (chain_args plain_env ''m'' ?p ?ws) \<union> set (chain_args plain_env ''m'' ?p ?vs)))"
    by (simp add: inj_on_def hasher_call_def hasher_input_def plain_env_def init_request_hasher_def
        str_of_int_def str_of_nat.simps digit_char_def)
  have "take (Suc 0 * 1) (all_token_ids (plain_request [7])) = take (Suc 0 * 1) (all_token_ids (plain_request [7, 8]))"
    using equal_hash_equal_prefix [OF _ hs hs' ws vs inj, of 0 0] by (simp add: Let_def)
  with hs hs' show ?thesis by (simp add: Let_def)
qed

text \<open>
  C17: the namespaces of two ranks are disjoint before hashing: whatever is hashed, the byte
  string digested for one rank is never the one digested for another rank, although the
  namespace is only a prefix of unequal length.
\<close>

theorem rank_namespaces_disjoint:
  assumes "rank_id \<noteq> rank_id'"
  shows "hasher_input E (build_kv_hash_meta digest cfg rank_id) x \<noteq>
         hasher_input E (build_kv_hash_meta digest cfg rank_id') y"
  using meta_rank_separates assms unfolding hasher_input_def by blast

lemma rank_namespaces_disjoint_witness:
  "hasher_input plain_env (build_kv_hash_meta ''d''
      \<lparr> cfg_model = ''org/model'', cfg_dtype = ''bf16'', cfg_tensor_parallel_size = 16,
        cfg_decode_context_parallel_size = None, cfg_speculative = Some (Some ''mtp'', None),
        cfg_cache_dtype = None, cfg_indexer_kv_dtype = None, cfg_enable_sparse_sfa_c8 = False,
        cfg_enable_sparse_li_c8 = False, cfg_hf_text_config = None, cfg_hf_config = None,
        cfg_hf_config_text_config = None \<rparr> 1) (BytesInput ''x'') \<noteq>
   hasher_input plain_env (build_kv_hash_meta ''d''
      \<lparr> cfg_model = ''org/model'', cfg_dtype = ''bf16'', cfg_tensor_parallel_size = 16,
        cfg_decode_context_parallel_size = None, cfg_speculative = Some (Some ''mtp'', None),
        cfg_cache_dtype = None, cfg_indexer_kv_dtype = None, cfg_enable_sparse_sfa_c8 = False,
        cfg_enable_sparse_li_c8 = False, cfg_hf_text_config = None, cfg_hf_config = None,
        cfg_hf_config_text_config = None \<rparr> 11) (BytesInput ''x'')"
  by (rule rank_namespaces_disjoint) simp

end
