(* ===== verification/Direct_Scheduler.thy ===== *)
theory Direct_Scheduler
  imports Rank_Consistency Request_Hasher
begin

text \<open>
  The scheduler side of \<open>UCMDirectConnector\<close> (ucm_connector.py): looking up how much of a
  request is in the external store, planning asynchronous loads, and turning every scheduler
  step into the load and dump plan of each request. Counts are Python integers; the block
  size and the context-parallel size are positive (vLLM validates both).
\<close>

section \<open>Requests and their metadata\<close>

record sched_request =
  sr_request :: request
  sr_num_tokens :: int
  sr_preempted :: bool

record request_meta =
  rm_ucm_block_ids :: "bytes list"
  rm_hbm_hit_block_num :: int
  rm_total_hit_block_num :: int
  rm_num_token_ids :: int
  rm_vllm_block_ids :: "int list"
  rm_token_processed :: int

record dispatch_meta =
  dm_load_block_ids :: "bytes list \<times> int list"
  dm_dump_block_ids :: "bytes list \<times> int list"
  dm_dump_block_start :: int
  dm_load_async :: bool

type_synonym dispatches = "(string \<times> dispatch_meta) list"

record connector_metadata =
  cm_request_meta :: dispatches
  cm_preempted_req_ids :: "string set"

text \<open>
  What does not change: \<open>cf_spec_tokens\<close> is \<open>None\<close> without speculative decoding, \<open>Some None\<close>
  when its token count cannot be read as an integer. The hashers are those of
  \<open>Request_Hasher\<close>, bound at construction.
\<close>

record sched_conf =
  cf_block_size :: int
  cf_cp_world_size :: int
  cf_store :: store_ref
  cf_persist_token_threshold :: int
  cf_use_layerwise :: bool
  cf_spec_tokens :: "int option option"
  cf_use_request_async_load :: bool
  cf_request_block_hasher :: "request \<Rightarrow> bytes list res"
  cf_other_rank_hashers :: "(bytes \<Rightarrow> bytes) list"

record sched =
  requests_meta :: "(string \<times> request_meta) list"
  pending_async_load_dispatches :: dispatches
  async_load_req_ids :: "string set"
  async_dump_req_ids :: "string set"
  rank_consistency :: manager

definition get_full_hit_recompute_tokens :: "sched_conf \<Rightarrow> int" where
  "get_full_hit_recompute_tokens C =
     (if \<not> cf_use_layerwise C then 1
      else case cf_spec_tokens C of
             None \<Rightarrow> 2
           | Some None \<Rightarrow> 0 + 2
           | Some (Some n) \<Rightarrow> max n 0 + 2)"

text \<open>The hashers of the other ranks: none for MLA, otherwise one per tensor-parallel rank above 0.\<close>

definition make_other_rank_hashers :: "hash_env \<Rightarrow> (int \<Rightarrow> string) \<Rightarrow> bool \<Rightarrow> int \<Rightarrow> (bytes \<Rightarrow> bytes) list" where
  "make_other_rank_hashers E meta_of is_mla tp_size =
     (if is_mla then []
      else map (\<lambda>rank_id block_id. hasher_call E (meta_bytes (init_request_hasher E (meta_of rank_id))) (BytesInput block_id))
             [1..tp_size - 1])"

section \<open>Hotness hints\<close>

definition prefetch_all_rank_hashes :: "world \<Rightarrow> sched_conf \<Rightarrow> bytes list \<Rightarrow> trace \<Rightarrow> unit res \<times> trace" where
  "prefetch_all_rank_hashes W C rank0_block_ids t =
     (if rank0_block_ids = [] then (Inr (), t)
      else case store_prefetch W (cf_store C) rank0_block_ids t of
             (Inl e, t) \<Rightarrow> (Inl e, t)
           | (Inr _, t) \<Rightarrow>
               if cf_other_rank_hashers C = [] then (Inr (), t)
               else
                 let other_rank_block_ids =
                       concat (map (\<lambda>rank_hasher. map rank_hasher rank0_block_ids) (cf_other_rank_hashers C))
                 in if other_rank_block_ids \<noteq> []
                    then store_prefetch W (cf_store C) other_rank_block_ids t
                    else (Inr (), t))"

definition prefetch_direct_hit_key_hotness ::
  "world \<Rightarrow> sched_conf \<Rightarrow> bytes list \<Rightarrow> bytes list \<Rightarrow> trace \<Rightarrow> trace" where
  "prefetch_direct_hit_key_hotness W C hbm_hit_block_ids all_hit_block_ids t =
     (let t = (if hbm_hit_block_ids \<noteq> [] then snd (store_prefetch W (cf_store C) hbm_hit_block_ids t) else t)
      in if all_hit_block_ids \<noteq> [] then snd (prefetch_all_rank_hashes W C all_hit_block_ids t) else t)"

section \<open>Looking up a request\<close>

definition lookup_start :: "sched \<Rightarrow> string \<Rightarrow> int \<Rightarrow> int \<times> bool" where
  "lookup_start st req_id hbm_hit_block_num =
     (case map_of (requests_meta st) req_id of
        None \<Rightarrow> (hbm_hit_block_num, False)
      | Some rm \<Rightarrow>
          if rm_hbm_hit_block_num rm \<le> hbm_hit_block_num \<and> rm_total_hit_block_num rm > hbm_hit_block_num
          then (rm_total_hit_block_num rm - 1, True)
          else (hbm_hit_block_num, False))"

text \<open>
  The block identifiers asked for, the number of external blocks hit, and the trace. The
  lookup is the rank-consistency manager's; an exception of it counts as no hit.
\<close>

type_synonym lookup_fn = "bytes list \<Rightarrow> trace \<Rightarrow> int res \<times> trace"

definition lookup_failed :: "trace \<Rightarrow> trace" where
  "lookup_failed t = update_stats [(''connector_lookup_errors_total'', 1)] t"

definition external_lookup ::
  "lookup_fn \<Rightarrow> int \<Rightarrow> bytes list \<Rightarrow> int \<Rightarrow> int \<times> bool \<Rightarrow> trace \<Rightarrow> bytes list \<times> int \<times> trace" where
  "external_lookup lookup cp ucm_block_ids hbm_hit_block_num plan t =
     (case plan of (lookup_start_block_num, resume_from_last_hit) \<Rightarrow>
        let external_block_ids = py_from ucm_block_ids (lookup_start_block_num * cp)
        in if external_block_ids = [] then (external_block_ids, 0, t)
           else case lookup external_block_ids t of
             (Inl e, t) \<Rightarrow> (external_block_ids, 0, lookup_failed t)
           | (Inr hit, t) \<Rightarrow>
               let found_blocks = (hit + 1) div cp
               in if resume_from_last_hit \<and> found_blocks = 0
                  then
                    let external_block_ids = py_from ucm_block_ids (hbm_hit_block_num * cp)
                    in if external_block_ids = [] then (external_block_ids, 0, t)
                       else case lookup external_block_ids t of
                         (Inl e, t) \<Rightarrow> (external_block_ids, 0, lookup_failed t)
                       | (Inr hit, t) \<Rightarrow> (external_block_ids, (hit + 1) div cp, t)
                  else (external_block_ids, (lookup_start_block_num - hbm_hit_block_num) + found_blocks, t))"

definition forget_async_load :: "string \<Rightarrow> sched \<Rightarrow> sched" where
  "forget_async_load req_id st =
     st\<lparr>pending_async_load_dispatches := AList.delete req_id (pending_async_load_dispatches st),
        async_load_req_ids := async_load_req_ids st - {req_id}\<rparr>"

definition request_block_ids :: "sched_conf \<Rightarrow> sched \<Rightarrow> sched_request \<Rightarrow> bytes list res" where
  "request_block_ids C st request =
     (case map_of (requests_meta st) (request_id (sr_request request)) of
        None \<Rightarrow> cf_request_block_hasher C (sr_request request)
      | Some rm \<Rightarrow> Inr (rm_ucm_block_ids rm))"

definition record_hit ::
  "world \<Rightarrow> sched_conf \<Rightarrow> sched_request \<Rightarrow> bytes list \<Rightarrow> int \<Rightarrow> bytes list \<times> int \<times> trace \<Rightarrow> sched \<Rightarrow>
   (int \<times> bool) \<times> sched \<times> trace" where
  "record_hit W C request ucm_block_ids hbm_hit_block_num found st =
     (case found of (external_block_ids, external_hit_blocks, t) \<Rightarrow>
        let cp = cf_cp_world_size C;
            hbm_hit_hashes = hbm_hit_block_num * cp;
            total_hit_hashes = (hbm_hit_block_num + external_hit_blocks) * cp;
            t = prefetch_direct_hit_key_hotness W C (py_upto ucm_block_ids hbm_hit_hashes)
                  (py_upto ucm_block_ids total_hit_hashes) t
        in if external_block_ids = [] then ((0, False), st, t)
           else
             let t = update_stats [(''interval_lookup_hit_rates'',
                        of_int (external_hit_blocks * cp) / of_nat (length ucm_block_ids))] t;
                 total_hit_block_num = hbm_hit_block_num + external_hit_blocks;
                 external_hit_tokens = external_hit_blocks * cf_block_size C;
                 num_total_hit_tokens = total_hit_block_num * cf_block_size C;
                 recompute_tokens = get_full_hit_recompute_tokens C;
                 actual_recompute_tokens = sr_num_tokens request - num_total_hit_tokens;
                 external_hit_tokens =
                   (if actual_recompute_tokens < recompute_tokens
                    then max 0 (external_hit_tokens - (recompute_tokens - actual_recompute_tokens))
                    else external_hit_tokens);
                 rm = \<lparr> rm_ucm_block_ids = ucm_block_ids, rm_hbm_hit_block_num = hbm_hit_block_num,
                        rm_total_hit_block_num = total_hit_block_num,
                        rm_num_token_ids = int (length (all_token_ids (sr_request request))),
                        rm_vllm_block_ids = [],
                        rm_token_processed = hbm_hit_block_num * cf_block_size C + external_hit_tokens \<rparr>
             in ((external_hit_tokens, cf_use_request_async_load C \<and> external_hit_tokens > 0),
                 st\<lparr>requests_meta := AList.update (request_id (sr_request request)) rm (requests_meta st)\<rparr>, t))"

definition get_num_new_matched_tokens ::
  "world \<Rightarrow> sched_conf \<Rightarrow> sched_request \<Rightarrow> int \<Rightarrow> sched \<Rightarrow> trace \<Rightarrow> (int \<times> bool) res \<times> sched \<times> trace" where
  "get_num_new_matched_tokens W C request num_computed_tokens st t =
     (let req_id = request_id (sr_request request);
          st = forget_async_load req_id st
      in if num_computed_tokens mod cf_block_size C \<noteq> 0 then (Inl AssertionError, st, t)
         else
           let hbm_hit_block_num = num_computed_tokens div cf_block_size C;
               st = (if sr_preempted request
                     then st\<lparr>requests_meta := AList.delete req_id (requests_meta st)\<rparr> else st)
           in case request_block_ids C st request of
                Inl e \<Rightarrow> (Inr (0, False), st, t)
              | Inr ucm_block_ids \<Rightarrow>
                  if cf_persist_token_threshold C > sr_num_tokens request then (Inr (0, False), st, t)
                  else
                    let found = external_lookup
                                  (mgr_lookup_on_prefix W (rank_consistency st) (cf_store C))
                                  (cf_cp_world_size C) ucm_block_ids hbm_hit_block_num
                                  (lookup_start st req_id hbm_hit_block_num) t
                    in case record_hit W C request ucm_block_ids hbm_hit_block_num found st of
                         (r, st, t) \<Rightarrow> (Inr r, st, t))"

section \<open>Planning an asynchronous load\<close>

text \<open>
  \<open>blocks.get_block_ids()\<close> is the list of block ids of each cache group. The quotient is a
  float in the source; it is exact for counts below 2^53.
\<close>

definition update_state_after_alloc ::
  "sched_conf \<Rightarrow> string \<Rightarrow> int list list \<Rightarrow> int \<Rightarrow> sched \<Rightarrow> unit res \<times> sched" where
  "update_state_after_alloc C req_id block_ids_by_group num_external_tokens st =
     (if \<not> cf_use_request_async_load C \<or> num_external_tokens \<le> 0 then (Inr (), st)
      else case map_of (requests_meta st) req_id of
        None \<Rightarrow> (Inl (RuntimeError ''Request has external tokens but no UCM metadata.''), st)
      | Some rm \<Rightarrow>
          (case block_ids_by_group of
             [] \<Rightarrow> (Inl (RuntimeError ''Request has no allocated KV blocks.''), st)
           | vllm_block_ids # _ \<Rightarrow>
               let cp = cf_cp_world_size C;
                   external_start = rm_hbm_hit_block_num rm;
                   num_external_blocks = ceil_div num_external_tokens (cf_block_size C);
                   external_end = external_start + num_external_blocks;
                   load_vllm_block_ids = py_slice vllm_block_ids external_start external_end;
                   load_ucm_block_ids = py_slice (rm_ucm_block_ids rm) (external_start * cp) (external_end * cp)
               in if int (length load_vllm_block_ids) \<noteq> num_external_blocks
                  then (Inl (RuntimeError ''wrong number of allocated external blocks''), st)
                  else if int (length load_ucm_block_ids) \<noteq> num_external_blocks * cp
                  then (Inl (RuntimeError ''wrong number of UCM blocks''), st)
                  else (Inr (),
                    st\<lparr>pending_async_load_dispatches :=
                         AList.update req_id
                           \<lparr> dm_load_block_ids = (load_ucm_block_ids, load_vllm_block_ids),
                             dm_dump_block_ids = ([], []), dm_dump_block_start = 0, dm_load_async = True \<rparr>
                           (pending_async_load_dispatches st),
                       async_load_req_ids := insert req_id (async_load_req_ids st)\<rparr>)))"

section \<open>One scheduler step\<close>

definition generate_dispatch_meta ::
  "sched_conf \<Rightarrow> request_meta \<Rightarrow> int \<Rightarrow> int list \<Rightarrow> bool \<Rightarrow> dispatch_meta \<times> request_meta" where
  "generate_dispatch_meta C req_meta new_tokens vllm_block_ids need_load =
     (let cp = cf_cp_world_size C;
          hbm_hit_block_num = rm_hbm_hit_block_num req_meta;
          total_hit_block_num = rm_total_hit_block_num req_meta;
          ucm_block_ids = rm_ucm_block_ids req_meta;
          req_meta = req_meta\<lparr>rm_vllm_block_ids := rm_vllm_block_ids req_meta @ vllm_block_ids\<rparr>;
          load = (if need_load
                  then (py_slice ucm_block_ids (hbm_hit_block_num * cp) (total_hit_block_num * cp),
                        py_slice vllm_block_ids hbm_hit_block_num total_hit_block_num)
                  else ([], []))
      in if rm_token_processed req_meta < rm_num_token_ids req_meta
         then
           let start_idx = rm_token_processed req_meta div cf_block_size C;
               end_idx = (rm_token_processed req_meta + new_tokens) div cf_block_size C;
               dump_ucm_block_ids = py_slice ucm_block_ids (start_idx * cp) (end_idx * cp);
               dump_vllm_block_ids = py_slice (rm_vllm_block_ids req_meta) start_idx end_idx;
               token_processed = rm_token_processed req_meta + new_tokens;
               dump_vllm_block_ids =
                 (if token_processed > rm_num_token_ids req_meta
                  then py_upto dump_vllm_block_ids (int (length dump_ucm_block_ids))
                  else dump_vllm_block_ids)
           in (\<lparr> dm_load_block_ids = load, dm_dump_block_ids = (dump_ucm_block_ids, dump_vllm_block_ids),
                 dm_dump_block_start = start_idx, dm_load_async = False \<rparr>,
               req_meta\<lparr>rm_token_processed := token_processed\<rparr>)
         else (\<lparr> dm_load_block_ids = load, dm_dump_block_ids = ([], []),
                 dm_dump_block_start = 0, dm_load_async = False \<rparr>, req_meta))"

text \<open>
  vLLM's scheduler output. Requests already running arrive as one object of parallel lists
  (with a flag per request, or the set of resumed ids, depending on the version) or, before
  0.9.2, as a list of requests.
\<close>

datatype cached_reqs =
    CachedData "string list" "int list list option list" "bool list + string set"
  | CachedList "(string \<times> int list list \<times> bool) list"

record scheduler_output =
  so_scheduled_new_reqs :: "(string \<times> int list list) list"
  so_scheduled_cached_reqs :: cached_reqs
  so_num_scheduled_tokens :: "(string \<times> int) list"
  so_finished_req_ids :: "string set"
  so_preempted_req_ids :: "string set"

definition dispatch_request ::
  "sched_conf \<Rightarrow> scheduler_output \<Rightarrow> string \<Rightarrow> int list \<Rightarrow> bool \<Rightarrow> dispatches \<times> sched \<Rightarrow>
   dispatches res \<times> sched" where
  "dispatch_request C out req_id vllm_block_ids need_load acc =
     (case acc of (plans, st) \<Rightarrow>
        (case map_of (requests_meta st) req_id of
           None \<Rightarrow> (Inr plans, st)
         | Some req_meta \<Rightarrow>
             (case dict_get (so_num_scheduled_tokens out) req_id of
                Inl e \<Rightarrow> (Inl e, st)
              | Inr new_tokens \<Rightarrow>
                  (case generate_dispatch_meta C req_meta new_tokens vllm_block_ids need_load of
                     (plan, req_meta) \<Rightarrow>
                       (Inr (AList.update req_id plan plans),
                        st\<lparr>requests_meta := AList.update req_id req_meta (requests_meta st)\<rparr>)))))"

fun dispatch_new ::
  "sched_conf \<Rightarrow> scheduler_output \<Rightarrow> (string \<times> int list list) list \<Rightarrow> dispatches \<times> sched \<Rightarrow>
   dispatches res \<times> sched" where
  "dispatch_new C out [] (plans, st) = (Inr plans, st)"
| "dispatch_new C out ((req_id, block_ids) # reqs) (plans, st) =
     (case py_nth block_ids 0 of
        Inl e \<Rightarrow> (Inl e, st)
      | Inr vllm_block_ids \<Rightarrow>
          (case dispatch_request C out req_id vllm_block_ids (req_id \<notin> async_load_req_ids st) (plans, st) of
             (Inl e, st) \<Rightarrow> (Inl e, st)
           | (Inr plans, st) \<Rightarrow> dispatch_new C out reqs (plans, st)))"

text \<open>One running request of either form: its new blocks and whether it was resumed.\<close>

definition cached_item :: "cached_reqs \<Rightarrow> nat \<Rightarrow> string \<Rightarrow> (int list \<times> bool) res" where
  "cached_item reqs i req_id =
     (case reqs of
        CachedData req_ids new_block_ids resumed \<Rightarrow>
          bindR (py_nth new_block_ids (int i)) (\<lambda>groups.
          bindR (case groups of None \<Rightarrow> Inr [] | Some gs \<Rightarrow> py_nth gs 0) (\<lambda>ids.
          bindR (case resumed of Inl flags \<Rightarrow> py_nth flags (int i) | Inr S \<Rightarrow> Inr (req_id \<in> S)) (\<lambda>r.
            Inr (ids, r))))
      | CachedList items \<Rightarrow>
          bindR (py_nth items (int i)) (\<lambda>(_, groups, r).
          bindR (py_nth groups 0) (\<lambda>ids. Inr (ids, r))))"

definition cached_ids :: "cached_reqs \<Rightarrow> string list" where
  "cached_ids reqs = (case reqs of CachedData req_ids _ _ \<Rightarrow> req_ids | CachedList items \<Rightarrow> map fst items)"

fun dispatch_cached ::
  "sched_conf \<Rightarrow> scheduler_output \<Rightarrow> (nat \<times> string) list \<Rightarrow> dispatches \<times> sched \<Rightarrow> dispatches res \<times> sched" where
  "dispatch_cached C out [] (plans, st) = (Inr plans, st)"
| "dispatch_cached C out ((i, req_id) # reqs) (plans, st) =
     (if map_of (requests_meta st) req_id = None then dispatch_cached C out reqs (plans, st)
      else case cached_item (so_scheduled_cached_reqs out) i req_id of
        Inl e \<Rightarrow> (Inl e, st)
      | Inr (new_block_ids, resumed_from_preemption) \<Rightarrow>
          (case dispatch_request C out req_id new_block_ids
                  (resumed_from_preemption \<and> req_id \<notin> async_load_req_ids st) (plans, st) of
             (Inl e, st) \<Rightarrow> (Inl e, st)
           | (Inr plans, st) \<Rightarrow> dispatch_cached C out reqs (plans, st)))"

definition clear_finished :: "string set \<Rightarrow> sched \<Rightarrow> sched" where
  "clear_finished finished st =
     st\<lparr>requests_meta := dict_drop finished (requests_meta st),
        pending_async_load_dispatches := dict_drop finished (pending_async_load_dispatches st),
        async_load_req_ids := async_load_req_ids st - finished\<rparr>"

definition track_async_dump_requests :: "dispatches \<Rightarrow> sched \<Rightarrow> sched" where
  "track_async_dump_requests plans st =
     st\<lparr>async_dump_req_ids := async_dump_req_ids st \<union>
          {req_id. \<exists>plan. (req_id, plan) \<in> set plans \<and> fst (dm_dump_block_ids plan) \<noteq> []}\<rparr>"

definition build_connector_meta ::
  "sched_conf \<Rightarrow> scheduler_output \<Rightarrow> sched \<Rightarrow> connector_metadata res \<times> sched" where
  "build_connector_meta C out st =
     (case dispatch_new C out (so_scheduled_new_reqs out) ([], st) of
        (Inl e, st) \<Rightarrow> (Inl e, st)
      | (Inr plans, st) \<Rightarrow>
          (case dispatch_cached C out (enumerate 0 (cached_ids (so_scheduled_cached_reqs out))) (plans, st) of
             (Inl e, st) \<Rightarrow> (Inl e, st)
           | (Inr plans, st) \<Rightarrow>
               let st = clear_finished (so_finished_req_ids out) st;
                   plans = dict_update plans (pending_async_load_dispatches st);
                   st = st\<lparr>pending_async_load_dispatches := []\<rparr>;
                   st = track_async_dump_requests plans st
               in (Inr \<lparr> cm_request_meta = plans, cm_preempted_req_ids = so_preempted_req_ids out \<rparr>, st)))"

section \<open>What comes back from the workers\<close>

text \<open>
  The requests whose load failed are visited in a set's order; each visit touches only its
  own entry, so the loop is one pass over the dictionary.
\<close>

definition after_failed_load :: "sched_conf \<Rightarrow> request_meta \<Rightarrow> request_meta" where
  "after_failed_load C rm =
     rm\<lparr>rm_total_hit_block_num := rm_hbm_hit_block_num rm,
        rm_token_processed := rm_hbm_hit_block_num rm * cf_block_size C\<rparr>"

definition update_connector_output ::
  "set_impl \<Rightarrow> sched_conf \<Rightarrow> worker_meta option \<Rightarrow> sched \<Rightarrow> sched" where
  "update_connector_output P C meta st =
     (case meta of
        None \<Rightarrow> st
      | Some wm \<Rightarrow>
          st\<lparr>rank_consistency := apply_worker_meta P wm (rank_consistency st),
             requests_meta :=
               map (\<lambda>(req_id, rm). (req_id, if req_id \<in> wm_load_failed_reqs wm then after_failed_load C rm else rm))
                 (filter (\<lambda>(req_id, rm). req_id \<in> wm_load_failed_reqs wm \<longrightarrow> req_id \<in> wm_missing_reqs wm)
                    (requests_meta st))\<rparr>)"

definition request_finished :: "string \<Rightarrow> sched \<Rightarrow> bool \<times> sched" where
  "request_finished req_id st =
     (if req_id \<in> async_dump_req_ids st
      then (True, st\<lparr>async_dump_req_ids := async_dump_req_ids st - {req_id}\<rparr>)
      else (False, st))"

section \<open>Vocabulary of the properties\<close>

definition conf_ok :: "sched_conf \<Rightarrow> bool" where
  "conf_ok C \<longleftrightarrow> 0 < cf_block_size C \<and> 0 < cf_cp_world_size C"

text \<open>The part of the lookup's contract that holds of any answer: an index of the list, or -1.\<close>

definition lookup_bounded :: "world \<Rightarrow> bool" where
  "lookup_bounded W \<longleftrightarrow>
     (\<forall>t s ids r. w_lookup_on_prefix W t s ids = Inr r \<longrightarrow> - 1 \<le> r \<and> r < int (length ids))"

definition meta_ok :: "sched_conf \<Rightarrow> request_meta \<Rightarrow> bool" where
  "meta_ok C rm \<longleftrightarrow>
     0 \<le> rm_hbm_hit_block_num rm \<and> rm_hbm_hit_block_num rm \<le> rm_total_hit_block_num rm \<and>
     (rm_hbm_hit_block_num rm < rm_total_hit_block_num rm \<longrightarrow>
        rm_total_hit_block_num rm * cf_cp_world_size C \<le> int (length (rm_ucm_block_ids rm))) \<and>
     rm_hbm_hit_block_num rm * cf_block_size C \<le> rm_token_processed rm"

definition async_plan_ok :: "sched_conf \<Rightarrow> dispatch_meta \<Rightarrow> bool" where
  "async_plan_ok C plan \<longleftrightarrow>
     dm_load_async plan \<and> dm_dump_block_ids plan = ([], []) \<and> snd (dm_load_block_ids plan) \<noteq> [] \<and>
     int (length (fst (dm_load_block_ids plan))) = int (length (snd (dm_load_block_ids plan))) * cf_cp_world_size C"

definition sched_inv :: "sched_conf \<Rightarrow> sched \<Rightarrow> bool" where
  "sched_inv C st \<longleftrightarrow>
     dict_wf (requests_meta st) \<and> dict_wf (pending_async_load_dispatches st) \<and>
     (\<forall>rm \<in> snd ` set (requests_meta st). meta_ok C rm) \<and>
     (\<forall>plan \<in> snd ` set (pending_async_load_dispatches st). async_plan_ok C plan) \<and>
     fst ` set (pending_async_load_dispatches st) \<subseteq> async_load_req_ids st"

definition init_sched :: "bool \<Rightarrow> sched" where
  "init_sched use_consistency_manager =
     \<lparr> requests_meta = [], pending_async_load_dispatches = [], async_load_req_ids = {},
       async_dump_req_ids = {}, rank_consistency = init_manager True use_consistency_manager \<rparr>"

text \<open>
  Everything vLLM may call on the scheduler's connector, in any order; between two calls the
  trace may grow by what other processes do.
\<close>

inductive sched_reach :: "world \<Rightarrow> set_impl \<Rightarrow> sched_conf \<Rightarrow> sched \<Rightarrow> trace \<Rightarrow> bool"
  for W P C where
  reach_init: "sched_reach W P C (init_sched b) t"
| reach_lookup: "sched_reach W P C st t \<Longrightarrow> 0 \<le> n \<Longrightarrow>
    get_num_new_matched_tokens W C request n st t = (r, st', t') \<Longrightarrow> sched_reach W P C st' t'"
| reach_alloc: "sched_reach W P C st t \<Longrightarrow>
    update_state_after_alloc C req_id groups n st = (r, st') \<Longrightarrow> sched_reach W P C st' t"
| reach_build: "sched_reach W P C st t \<Longrightarrow> \<forall>(q, n) \<in> set (so_num_scheduled_tokens out). 0 \<le> n \<Longrightarrow>
    build_connector_meta C out st = (r, st') \<Longrightarrow> sched_reach W P C st' t"
| reach_output: "sched_reach W P C st t \<Longrightarrow> sched_reach W P C (update_connector_output P C meta st) t"
| reach_finished: "sched_reach W P C st t \<Longrightarrow> request_finished req_id st = (r, st') \<Longrightarrow> sched_reach W P C st' t"
| reach_others: "sched_reach W P C st t \<Longrightarrow> sched_reach W P C st (t @ es)"

text \<open>A prefill in chunks: the tokens and the new blocks of each scheduler step.\<close>

fun run_chunks :: "sched_conf \<Rightarrow> request_meta \<Rightarrow> (int \<times> int list) list \<Rightarrow> dispatch_meta list \<times> request_meta" where
  "run_chunks C rm [] = ([], rm)"
| "run_chunks C rm ((new_tokens, vllm_block_ids) # chunks) =
     (case generate_dispatch_meta C rm new_tokens vllm_block_ids False of
        (plan, rm) \<Rightarrow> (case run_chunks C rm chunks of (plans, rm) \<Rightarrow> (plan # plans, rm)))"

text \<open>
  Two lists cut at the same blocks: block \<open>k\<close> of the second goes with the \<open>cp\<close> identifiers
  from \<open>k * cp\<close> on of the first, both counted from block \<open>s\<close> of the request.
\<close>

definition aligned :: "int \<Rightarrow> int \<Rightarrow> bytes list \<Rightarrow> int list \<Rightarrow> bytes list \<times> int list \<Rightarrow> bool" where
  "aligned cp s ucm vllm pair \<longleftrightarrow>
     int (length (fst pair)) = int (length (snd pair)) * cp \<and>
     (\<forall>k < length (snd pair). snd pair ! k = vllm ! (nat s + k) \<and>
        (\<forall>j < nat cp. fst pair ! (k * nat cp + j) = ucm ! ((nat s + k) * nat cp + j)))"

text \<open>The tokens reported, once the number of external blocks is known.\<close>

definition tokens_reported :: "sched_conf \<Rightarrow> sched_request \<Rightarrow> int \<Rightarrow> int \<Rightarrow> int" where
  "tokens_reported C request hbm k =
     (let rest = sr_num_tokens request - (hbm + k) * cf_block_size C
      in if rest < get_full_hit_recompute_tokens C
         then max 0 (k * cf_block_size C - (get_full_hit_recompute_tokens C - rest))
         else k * cf_block_size C)"

text \<open>The frame of a dispatch: only the metadata of requests changes.\<close>

definition same_async :: "sched \<Rightarrow> sched \<Rightarrow> bool" where
  "same_async st st' \<longleftrightarrow>
     pending_async_load_dispatches st' = pending_async_load_dispatches st \<and>
     async_load_req_ids st' = async_load_req_ids st \<and> async_dump_req_ids st' = async_dump_req_ids st \<and>
     rank_consistency st' = rank_consistency st \<and> fst ` set (requests_meta st') = fst ` set (requests_meta st)"

text \<open>The last part of \<open>build_connector_meta\<close>, after its loops.\<close>

definition finish_build :: "scheduler_output \<Rightarrow> dispatches \<Rightarrow> sched \<Rightarrow> connector_metadata \<times> sched" where
  "finish_build out plans st =
     (let st = clear_finished (so_finished_req_ids out) st;
          plans = dict_update plans (pending_async_load_dispatches st)
      in (\<lparr> cm_request_meta = plans, cm_preempted_req_ids = so_preempted_req_ids out \<rparr>,
          track_async_dump_requests plans (st\<lparr>pending_async_load_dispatches := []\<rparr>)))"

text \<open>The blocks a full lookup finds from block \<open>hbm\<close> on, for a presence predicate.\<close>

definition full_hit :: "(bytes \<Rightarrow> bool) \<Rightarrow> int \<Rightarrow> bytes list \<Rightarrow> int \<Rightarrow> int" where
  "full_hit p cp ucm hbm = int (length (takeWhile p (py_from ucm (hbm * cp)))) div cp"

text \<open>A block that a lookup through the manager may report: in the store and not marked.\<close>

definition trusted :: "(bytes \<Rightarrow> bool) \<Rightarrow> manager \<Rightarrow> bytes \<Rightarrow> bool" where
  "trusted present m b \<longleftrightarrow>
     present b \<and> \<not> (enabled m \<and> (\<exists>tr. tracker_of m = Some tr \<and> tracker_contains b tr))"

definition example_sched_conf :: sched_conf where
  "example_sched_conf =
     \<lparr> cf_block_size = 4, cf_cp_world_size = 1, cf_store = 0, cf_persist_token_threshold = 0,
       cf_use_layerwise = True, cf_spec_tokens = None, cf_use_request_async_load = True,
       cf_request_block_hasher = (\<lambda>r. Inr [''a'', ''b'', ''c'']), cf_other_rank_hashers = [] \<rparr>"

definition example_request :: sched_request where
  "example_request =
     \<lparr> sr_request = plain_request [1, 2, 3, 4, 5, 6, 7, 8, 9, 10, 11, 12, 13], sr_num_tokens = 13,
       sr_preempted = False \<rparr>"

definition example_meta :: request_meta where
  "example_meta =
     \<lparr> rm_ucm_block_ids = [''a'', ''b'', ''c''], rm_hbm_hit_block_num = 0, rm_total_hit_block_num = 2,
       rm_num_token_ids = 13, rm_vllm_block_ids = [], rm_token_processed = 8 \<rparr>"

definition example_sched :: sched where
  "example_sched = (init_sched True)\<lparr>requests_meta := [(''r'', example_meta)]\<rparr>"


section \<open>The lookup interface\<close>

locale bounded_lookup =
  fixes lookup :: lookup_fn and cp :: int
  assumes in_range: "lookup ids t = (Inr r, t') \<Longrightarrow> - 1 \<le> r \<and> r < int (length ids)"
    and cp_pos: "0 < cp"
begin

lemma found_range:
  assumes "lookup ids t = (Inr r, t')"
  shows "0 \<le> (r + 1) div cp" "(r + 1) div cp * cp \<le> int (length ids)"
proof -
  have r: "0 \<le> r + 1" "r + 1 \<le> int (length ids)" using in_range [OF assms] by simp_all
  then show "0 \<le> (r + 1) div cp" using cp_pos by (simp add: pos_imp_zdiv_nonneg_iff)
  have "(r + 1) div cp * cp + (r + 1) mod cp = r + 1" by (rule div_mult_mod_eq)
  with pos_mod_sign [OF cp_pos, of "r + 1"] r show "(r + 1) div cp * cp \<le> int (length ids)" by linarith
qed

text \<open>Starting at block \<open>n\<close>, the blocks found are blocks of the request.\<close>

lemma found_from:
  assumes "lookup (py_from ucm (n * cp)) t = (Inr r, t')" "0 \<le> n" "py_from ucm (n * cp) \<noteq> []"
  shows "(n + (r + 1) div cp) * cp \<le> int (length ucm)"
proof -
  have "0 \<le> n * cp" using assms(2) cp_pos by simp
  then have "int (length (py_from ucm (n * cp))) = int (length ucm) - n * cp"
    using assms(3) by (simp add: py_from_nonneg)
  with found_range(2) [OF assms(1)] show ?thesis by (simp add: distrib_right)
qed

lemma external_lookup_range:
  assumes "external_lookup lookup cp ucm hbm (start, resume) t = (ids, k, t')" "0 \<le> hbm" "hbm \<le> start"
  shows "0 \<le> k \<and> (0 < k \<longrightarrow> (hbm + k) * cp \<le> int (length ucm))"
proof -
  have start: "0 \<le> start" using assms(2,3) by simp
  note hit = found_range(1) found_from [OF _ assms(2)] found_from [OF _ start]
  show ?thesis
  proof (cases "py_from ucm (start * cp) = []")
    case True
    with assms(1) show ?thesis by (simp add: external_lookup_def Let_def)
  next
    case False
    obtain r1 t1 where l1: "lookup (py_from ucm (start * cp)) t = (r1, t1)" by fastforce
    show ?thesis
    proof (cases r1)
      case (Inl e)
      with assms(1) False l1 show ?thesis by (simp add: external_lookup_def Let_def)
    next
      case (Inr a)
      note l1' = l1 [unfolded Inr]
      show ?thesis
      proof (cases "resume \<and> (a + 1) div cp = 0 \<and> py_from ucm (hbm * cp) \<noteq> []")
        case True
        obtain r2 t2 where l2: "lookup (py_from ucm (hbm * cp)) t1 = (r2, t2)" by fastforce
        show ?thesis
          using assms(1) False l1' l2 True hit(1,2) by (cases r2) (auto simp: external_lookup_def Let_def)
      next
        case nofall: False
        with assms(1) False l1' consider "k = 0" | "hbm + k = start + (a + 1) div cp"
          by (auto simp: external_lookup_def Let_def split: if_splits)
        then show ?thesis
        proof cases
          case 2
          moreover from this hit(1) [OF l1'] assms(3) have "0 \<le> k" by linarith
          ultimately show ?thesis using hit(3) [OF l1' False] by simp
        qed simp
      qed
    qed
  qed
qed

end

lemma mgr_bounded:
  assumes "lookup_bounded W" "0 < cp"
  shows "bounded_lookup (mgr_lookup_on_prefix W m s) cp"
proof
  fix ids t r t'
  assume a: "mgr_lookup_on_prefix W m s ids t = (Inr r, t')"
  have len: "length (valid_prefix tr ids) \<le> length ids" for tr
    using tracker_filter.cut_prefix prefix_length_le by blast
  have b: "- 1 \<le> r \<and> r < int (length ids)"
    if "w_lookup_on_prefix W t s xs = Inr r" "length xs \<le> length ids" for xs
  proof -
    have "- 1 \<le> r \<and> r < int (length xs)" using assms(1) that(1) by (simp add: lookup_bounded_def)
    with that(2) show ?thesis by linarith
  qed
  show "- 1 \<le> r \<and> r < int (length ids)"
    using a b len by (auto simp: mgr_lookup_on_prefix_def store_lookup_on_prefix_def Let_def
        split: if_splits option.splits)
qed (rule assms(2))

lemma script_world_bounded: "lookup_bounded (script_world held)"
  by (auto simp: lookup_bounded_def script_world_def prefix_doc_bounds)

interpretation script_lookup: bounded_lookup "mgr_lookup_on_prefix (script_world held) m s" 1 for held m s
  by (rule mgr_bounded [OF script_world_bounded]) simp

section \<open>Facts about one lookup\<close>

lemma get_num_cases:
  assumes "get_num_new_matched_tokens W C request n st t = (r, st', t')"
  obtains (assertion) "n mod cf_block_size C \<noteq> 0" "r = Inl AssertionError"
      "st' = forget_async_load (request_id (sr_request request)) st"
    | (skipped) st1 where "r = Inr (0, False)" "st' = st1" "t' = t"
      "st1 = forget_async_load (request_id (sr_request request)) st \<or>
       st1 = (forget_async_load (request_id (sr_request request)) st)
         \<lparr>requests_meta := AList.delete (request_id (sr_request request)) (requests_meta st)\<rparr>"
    | (recorded) st1 ids found where "n mod cf_block_size C = 0"
      "st1 = (let st0 = forget_async_load (request_id (sr_request request)) st
              in if sr_preempted request
                 then st0\<lparr>requests_meta := AList.delete (request_id (sr_request request)) (requests_meta st)\<rparr>
                 else st0)"
      "request_block_ids C st1 request = Inr ids"
      "found = external_lookup (mgr_lookup_on_prefix W (rank_consistency st1) (cf_store C))
         (cf_cp_world_size C) ids (n div cf_block_size C)
         (lookup_start st1 (request_id (sr_request request)) (n div cf_block_size C)) t"
      "(case record_hit W C request ids (n div cf_block_size C) found st1 of (r, st, t) \<Rightarrow> (Inr r, st, t)) =
       (r, st', t')"
  using assms unfolding get_num_new_matched_tokens_def Let_def
  by (auto simp: forget_async_load_def split: if_splits sum.splits)

lemma recompute_pos: "0 < get_full_hit_recompute_tokens C"
  by (auto simp: get_full_hit_recompute_tokens_def split: option.splits)

lemma tokens_reported_bounds:
  assumes "0 \<le> k" "0 < cf_block_size C"
  shows "0 \<le> tokens_reported C request hbm k" "tokens_reported C request hbm k \<le> k * cf_block_size C"
    "hbm * cf_block_size C + tokens_reported C request hbm k \<le>
       max (hbm * cf_block_size C) (sr_num_tokens request - get_full_hit_recompute_tokens C)"
  using assms recompute_pos [of C] by (auto simp: tokens_reported_def Let_def distrib_right max_def)

lemma record_hit_eq:
  "record_hit W C request ids hbm (ext, k, t) st =
     (let t1 = prefetch_direct_hit_key_hotness W C (py_upto ids (hbm * cf_cp_world_size C))
                 (py_upto ids ((hbm + k) * cf_cp_world_size C)) t;
          n = tokens_reported C request hbm k
      in if ext = [] then ((0, False), st, t1)
         else ((n, cf_use_request_async_load C \<and> n > 0),
               st\<lparr>requests_meta := AList.update (request_id (sr_request request))
                   \<lparr> rm_ucm_block_ids = ids, rm_hbm_hit_block_num = hbm, rm_total_hit_block_num = hbm + k,
                     rm_num_token_ids = int (length (all_token_ids (sr_request request))), rm_vllm_block_ids = [],
                     rm_token_processed = hbm * cf_block_size C + n \<rparr> (requests_meta st)\<rparr>,
               update_stats [(''interval_lookup_hit_rates'',
                 of_int (k * cf_cp_world_size C) / of_nat (length ids))] t1))"
  by (simp add: record_hit_def tokens_reported_def Let_def)

lemma lookup_start_range:
  assumes "sched_inv C st" "lookup_start st q hbm = (start, resume)" "0 \<le> hbm"
  shows "hbm \<le> start"
  using assms(2,3) by (auto simp: lookup_start_def split: option.splits if_splits)

lemma sched_inv_forget:
  assumes "sched_inv C st"
  shows "sched_inv C (forget_async_load q st)"
    "sched_inv C ((forget_async_load q st)\<lparr>requests_meta := AList.delete q (requests_meta st)\<rparr>)"
proof -
  have sub: "set (AList.delete q d) \<subseteq> set d" for d :: "(string \<times> 'b) list"
    by (auto simp: AList.delete_eq)
  show "sched_inv C (forget_async_load q st)"
    using assms sub [of "pending_async_load_dispatches st"]
    by (auto simp: sched_inv_def forget_async_load_def image_iff subset_iff) 
  show "sched_inv C ((forget_async_load q st)\<lparr>requests_meta := AList.delete q (requests_meta st)\<rparr>)"
    using assms sub [of "pending_async_load_dispatches st"] sub [of "requests_meta st"]
    by (auto simp: sched_inv_def forget_async_load_def image_iff subset_iff)
qed

lemma sched_inv_update_meta:
  assumes "sched_inv C st" "meta_ok C rm"
  shows "sched_inv C (st\<lparr>requests_meta := AList.update q rm (requests_meta st)\<rparr>)"
  using assms dict_mem_update by (fastforce simp: sched_inv_def)

lemma sched_inv_lookup:
  assumes "sched_inv C st" "lookup_bounded W" "conf_ok C" "0 \<le> n"
    and "get_num_new_matched_tokens W C request n st t = (r, st', t')"
  shows "sched_inv C st'"
  using assms(5)
proof (cases rule: get_num_cases)
  case assertion
  then show ?thesis using sched_inv_forget [OF assms(1)] by simp
next
  case skipped
  then show ?thesis using sched_inv_forget [OF assms(1)] by auto
next
  case (recorded st1 ids found)
  let ?hbm = "n div cf_block_size C"
  have pos: "0 < cf_block_size C" "0 < cf_cp_world_size C" using assms(3) by (simp_all add: conf_ok_def)
  have hbm: "0 \<le> ?hbm" using pos assms(4) by (simp add: pos_imp_zdiv_nonneg_iff)
  have inv1: "sched_inv C st1"
    using sched_inv_forget [OF assms(1)] recorded(2) by (simp add: Let_def split: if_splits)
  obtain ext k t1 where found: "found = (ext, k, t1)" by (cases found)
  obtain start resume where plan: "lookup_start st1 (request_id (sr_request request)) ?hbm = (start, resume)"
    by fastforce
  have k: "0 \<le> k" "0 < k \<longrightarrow> (?hbm + k) * cf_cp_world_size C \<le> int (length ids)"
    using bounded_lookup.external_lookup_range [OF mgr_bounded [OF assms(2) pos(2)], of _ _ ids ?hbm start resume t]
      recorded(4) found plan hbm lookup_start_range [OF inv1 plan hbm] by metis+
  let ?rm = "\<lparr> rm_ucm_block_ids = ids, rm_hbm_hit_block_num = ?hbm, rm_total_hit_block_num = ?hbm + k,
       rm_num_token_ids = int (length (all_token_ids (sr_request request))), rm_vllm_block_ids = [],
       rm_token_processed = ?hbm * cf_block_size C + tokens_reported C request ?hbm k \<rparr>"
  have ok: "meta_ok C ?rm"
    using k hbm tokens_reported_bounds(1) [OF k(1) pos(1)] by (simp add: meta_ok_def)
  have "st' = st1 \<or> st' = st1\<lparr>requests_meta := AList.update (request_id (sr_request request)) ?rm (requests_meta st1)\<rparr>"
    using recorded(5) by (auto simp: found record_hit_eq Let_def split: if_splits)
  with inv1 sched_inv_update_meta [OF inv1 ok] show ?thesis by auto
qed

section \<open>Facts about planning\<close>

lemma sched_inv_alloc:
  assumes "sched_inv C st" "conf_ok C" "update_state_after_alloc C q groups n st = (r, st')"
  shows "sched_inv C st'"
proof (cases "cf_use_request_async_load C \<and> 0 < n")
  case True
  then have pos: "0 < ceil_div n (cf_block_size C)"
    using ceil_div_bounds(1) [of "cf_block_size C" n] assms(2)
    by (auto simp: conf_ok_def zero_less_mult_iff dest: order_less_le_trans)
  show ?thesis
  proof (cases "st' = st")
    case False
    then obtain rm vllm gs where rm: "map_of (requests_meta st) q = Some rm" and groups: "groups = vllm # gs"
      using assms(3) True by (auto simp: update_state_after_alloc_def split: option.splits list.splits)
    let ?e = "rm_hbm_hit_block_num rm + ceil_div n (cf_block_size C)" and ?cp = "cf_cp_world_size C"
    let ?plan = "\<lparr> dm_load_block_ids = (py_slice (rm_ucm_block_ids rm) (rm_hbm_hit_block_num rm * ?cp) (?e * ?cp),
          py_slice vllm (rm_hbm_hit_block_num rm) ?e),
        dm_dump_block_ids = ([], []), dm_dump_block_start = 0, dm_load_async = True \<rparr>"
    have lens: "int (length (snd (dm_load_block_ids ?plan))) = ceil_div n (cf_block_size C)"
      "int (length (fst (dm_load_block_ids ?plan))) = ceil_div n (cf_block_size C) * ?cp"
      and st': "st' = st\<lparr>pending_async_load_dispatches := AList.update q ?plan (pending_async_load_dispatches st),
        async_load_req_ids := insert q (async_load_req_ids st)\<rparr>"
      using assms(3) True False rm groups by (auto simp: update_state_after_alloc_def Let_def split: if_splits)
    then have "async_plan_ok C ?plan" using pos by (auto simp: async_plan_ok_def)
    then show ?thesis using assms(1) st' dict_mem_update by (fastforce simp: sched_inv_def)
  qed (use assms(1) in simp)
qed (use assms in \<open>auto simp: update_state_after_alloc_def split: if_splits\<close>)

text \<open>What one dispatch does to the metadata, and what its plan loads.\<close>

lemma generate_meta_ok:
  assumes "generate_dispatch_meta C rm n vllm need = (plan, rm')" "meta_ok C rm" "0 \<le> n"
  shows "meta_ok C rm'"
  using assms by (auto simp: generate_dispatch_meta_def Let_def meta_ok_def split: if_splits)


lemma dispatch_request_cases:
  assumes "dispatch_request C out q vllm need (plans, st) = (r, st')"
  obtains (unknown) "map_of (requests_meta st) q = None" "r = Inr plans" "st' = st"
    | (error) e where "r = Inl e" "st' = st"
    | (planned) rm n plan rm' where "map_of (requests_meta st) q = Some rm"
      "map_of (so_num_scheduled_tokens out) q = Some n"
      "generate_dispatch_meta C rm n vllm need = (plan, rm')" "r = Inr (AList.update q plan plans)"
      "st' = st\<lparr>requests_meta := AList.update q rm' (requests_meta st)\<rparr>"
  using assms by (auto simp: dispatch_request_def split: option.splits sum.splits prod.splits)

text \<open>
  The loops of a step: what a single dispatch keeps, in a state where a load is asked for
  only when no asynchronous load was, the whole step keeps.
\<close>

lemma dispatch_new_rule:
  assumes "dispatch_new C out reqs (plans, st) = (r, st')" "K (Inr plans) st"
    and err: "\<And>e plans st. K (Inr plans) st \<Longrightarrow> K (Inl e) st"
    and step: "\<And>q vllm need plans st r st'. K (Inr plans) st \<Longrightarrow> need \<longrightarrow> q \<notin> async_load_req_ids st \<Longrightarrow>
      dispatch_request C out q vllm need (plans, st) = (r, st') \<Longrightarrow> K r st'"
  shows "K r st'"
  using assms(1,2)
proof (induction reqs arbitrary: plans st)
  case (Cons a reqs)
  obtain q blocks where a: "a = (q, blocks)" by (cases a)
  show ?case
  proof (cases "py_nth blocks 0")
    case (Inr ids)
    obtain r1 st1 where d: "dispatch_request C out q ids (q \<notin> async_load_req_ids st) (plans, st) = (r1, st1)"
      by fastforce
    have "K r1 st1" by (rule step [OF Cons.prems(2) _ d]) simp
    with Cons a Inr d show ?thesis by (cases r1) auto
  qed (use Cons.prems a err in auto)
qed simp

lemma dispatch_cached_rule:
  assumes "dispatch_cached C out reqs (plans, st) = (r, st')" "K (Inr plans) st"
    and err: "\<And>e plans st. K (Inr plans) st \<Longrightarrow> K (Inl e) st"
    and step: "\<And>q vllm need plans st r st'. K (Inr plans) st \<Longrightarrow> need \<longrightarrow> q \<notin> async_load_req_ids st \<Longrightarrow>
      dispatch_request C out q vllm need (plans, st) = (r, st') \<Longrightarrow> K r st'"
  shows "K r st'"
  using assms(1,2)
proof (induction reqs arbitrary: plans st)
  case (Cons a reqs)
  obtain i q where a: "a = (i, q)" by (cases a)
  consider (skip) "map_of (requests_meta st) q = None"
    | (bad) e where "map_of (requests_meta st) q \<noteq> None" "cached_item (so_scheduled_cached_reqs out) i q = Inl e"
    | (item) ids b where "map_of (requests_meta st) q \<noteq> None"
      "cached_item (so_scheduled_cached_reqs out) i q = Inr (ids, b)"
    by (cases "cached_item (so_scheduled_cached_reqs out) i q") auto
  then show ?case
  proof cases
    case item
    obtain r1 st1 where d: "dispatch_request C out q ids (b \<and> q \<notin> async_load_req_ids st) (plans, st) = (r1, st1)"
      by fastforce
    have "K r1 st1" by (rule step [OF Cons.prems(2) _ d]) simp
    with Cons a item d show ?thesis by (cases r1) auto
  qed (use Cons a err in auto)
qed simp

text \<open>A whole step ends in an error of the loops, or finishes on what they left.\<close>

lemma build_rule:
  assumes "build_connector_meta C out st = (r, st')" "K (Inr []) st"
    and "\<And>e plans st. K (Inr plans) st \<Longrightarrow> K (Inl e) st"
    and "\<And>q vllm need plans st r st'. K (Inr plans) st \<Longrightarrow> need \<longrightarrow> q \<notin> async_load_req_ids st \<Longrightarrow>
      dispatch_request C out q vllm need (plans, st) = (r, st') \<Longrightarrow> K r st'"
  shows "(\<exists>e. r = Inl e \<and> K (Inl e) st') \<or>
    (\<exists>plans st1 cm. K (Inr plans) st1 \<and> r = Inr cm \<and> (cm, st') = finish_build out plans st1)"
proof -
  obtain r1 st1 where n: "dispatch_new C out (so_scheduled_new_reqs out) ([], st) = (r1, st1)" by fastforce
  have k1: "K r1 st1" by (rule dispatch_new_rule [where K = K, OF n assms(2-4)])
  show ?thesis
  proof (cases r1)
    case (Inl e)
    with assms(1) n k1 show ?thesis by (auto simp: build_connector_meta_def)
  next
    case (Inr plans)
    obtain r2 st2 where c: "dispatch_cached C out (enumerate 0 (cached_ids (so_scheduled_cached_reqs out))) (plans, st1) =
        (r2, st2)" by fastforce
    have "K r2 st2" by (rule dispatch_cached_rule [where K = K, OF c k1 [unfolded Inr] assms(3,4)])
    with assms(1) n c Inr show ?thesis
      by (cases r2) (auto simp: build_connector_meta_def finish_build_def Let_def)
  qed
qed

lemma same_async_refl [simp]: "same_async st st"
  by (simp add: same_async_def)



lemma dispatch_request_inv:
  assumes "dispatch_request C out q vllm need (plans, st) = (r, st')" "sched_inv C st"
    and "\<forall>(q, n) \<in> set (so_num_scheduled_tokens out). 0 \<le> n"
  shows "sched_inv C st'"
  using assms(1)
proof (cases rule: dispatch_request_cases)
  case (planned rm n plan rm')
  then have "0 \<le> n" "meta_ok C rm"
    using assms(2,3) by (auto simp: sched_inv_def dest!: map_of_SomeD)
  with planned sched_inv_update_meta [OF assms(2)] generate_meta_ok show ?thesis by blast
qed (use assms(2) in simp_all)

lemma dict_drop_subset: "set (dict_drop S d) \<subseteq> set d"
  by (auto simp: dict_drop_def)

lemma sched_inv_build:
  assumes "sched_inv C st" "\<forall>(q, n) \<in> set (so_num_scheduled_tokens out). 0 \<le> n"
    and "build_connector_meta C out st = (r, st')"
  shows "sched_inv C st'"
proof -
  have "(\<exists>e. r = Inl e \<and> sched_inv C st') \<or>
    (\<exists>plans st1 cm. sched_inv C st1 \<and> r = Inr cm \<and> (cm, st') = finish_build out plans st1)"
    by (rule build_rule [where K = "\<lambda>_. sched_inv C", OF assms(3,1)])
      (use dispatch_request_inv [OF _ _ assms(2)] in blast)+
  moreover have "sched_inv C st'" if "sched_inv C st1" "(cm, st') = finish_build out plans st1" for st1 cm plans
    using that dict_drop_subset [of "so_finished_req_ids out" "requests_meta st1"]
    by (auto simp: finish_build_def Let_def sched_inv_def track_async_dump_requests_def clear_finished_def image_iff)
  ultimately show ?thesis by blast
qed

lemma sched_inv_output:
  assumes "sched_inv C st" shows "sched_inv C (update_connector_output P C meta st)"
proof (cases meta)
  case (Some wm)
  have keys: "fst \<circ> (\<lambda>(q, rm). (q, f q rm)) = fst" for f :: "string \<Rightarrow> request_meta \<Rightarrow> request_meta"
    by auto
  have "meta_ok C rm \<Longrightarrow> meta_ok C (after_failed_load C rm)" for rm
    by (simp add: meta_ok_def after_failed_load_def)
  with assms Some show ?thesis
    by (auto simp: update_connector_output_def sched_inv_def dict_wf_def keys distinct_map_filter)
qed (use assms in \<open>simp add: update_connector_output_def\<close>)

lemma sched_inv_dump_ids [simp]: "sched_inv C (st\<lparr>async_dump_req_ids := S\<rparr>) = sched_inv C st"
  by (simp add: sched_inv_def)

lemma sched_inv_finished: "sched_inv C st \<Longrightarrow> request_finished q st = (r, st') \<Longrightarrow> sched_inv C st'"
  by (auto simp: request_finished_def split: if_splits)







section \<open>Facts about slices of a request\<close>

lemma aligned_slices:
  assumes "0 \<le> s" "s \<le> e" "0 < cp" "e * cp \<le> int (length ucm)" "e \<le> int (length vllm)"
  shows "aligned cp s ucm vllm (py_slice ucm (s * cp) (e * cp), py_slice vllm s e)"
proof -
  have se: "0 \<le> e" "s * cp \<le> e * cp" using assms by (simp_all add: mult_right_mono)
  have len: "int (length (py_slice ucm (s * cp) (e * cp))) = int (length (py_slice vllm s e)) * cp"
    using assms se by (simp add: length_py_slice left_diff_distrib)
  have lv: "length (py_slice vllm s e) = nat e - nat s" 
    using assms se by (simp add: py_slice_nonneg)
  have v: "py_slice vllm s e ! k = vllm ! (nat s + k)" if "k < nat e - nat s" for k
    using that assms se by (simp add: py_slice_nonneg)
  have u: "py_slice ucm (s * cp) (e * cp) ! (k * nat cp + j) = ucm ! ((nat s + k) * nat cp + j)"
    if "k < nat e - nat s" "j < nat cp" for k j
  proof -
    have "k * nat cp + j < Suc k * nat cp" using that(2) by simp
    also have "Suc k * nat cp \<le> (nat e - nat s) * nat cp" using that(1) by (intro mult_right_mono) simp_all
    also have "\<dots> = nat (e * cp) - nat (s * cp)" using assms se by (simp add: nat_mult_distrib diff_mult_distrib)
    finally have "k * nat cp + j < nat (e * cp) - nat (s * cp)" .
    moreover have "nat (s * cp) \<le> length ucm" using assms(4) se by linarith
    moreover have pos: "nat (s * cp) + (k * nat cp + j) = (nat s + k) * nat cp + j"
      using assms by (simp add: nat_mult_distrib distrib_right)
    ultimately show ?thesis
      unfolding pos [symmetric] using assms(1,3) se by (simp add: py_slice_nonneg)
  qed
  show ?thesis using len v u lv by (simp add: aligned_def)
qed

lemma aligned_Nil [simp]: "aligned cp s ucm vllm ([], [])"
  by (simp add: aligned_def)

section \<open>Facts about exact hits\<close>

text \<open>
  On a list whose first part is all present, looking up from the end of that part finds what
  looking up from the start finds, less the part skipped.
\<close>

lemma takeWhile_skip:
  "\<forall>b \<in> set (take m xs). p b \<Longrightarrow> m \<le> length xs \<Longrightarrow>
   length (takeWhile p xs) = m + length (takeWhile p (drop m xs))"
proof (induction xs arbitrary: m)
  case (Cons x xs)
  then show ?case by (cases m) auto
qed simp

lemma documented_from:
  assumes "\<And>ids t. fst (lookup ids t) = Inr (lookup_on_prefix_doc p ids)"
  obtains t' where "lookup (py_from ucm (n * cp)) t = (Inr (int (length (takeWhile p (py_from ucm (n * cp)))) - 1), t')"
  using assms [of "py_from ucm (n * cp)" t] by (cases "lookup (py_from ucm (n * cp)) t") (auto simp: lookup_on_prefix_doc_def)

lemma external_lookup_exact:
  assumes doc: "\<And>ids t. fst (lookup ids t) = Inr (lookup_on_prefix_doc p ids)"
    and "external_lookup lookup cp ucm hbm (start, resume) t = (ext, k, t')"
    and "0 < cp" "0 \<le> hbm" "hbm \<le> start" "resume \<or> start = hbm" "resume \<longrightarrow> start * cp < int (length ucm)"
    and held: "\<forall>b \<in> set (py_slice ucm (hbm * cp) (start * cp)). p b"
  shows "k = full_hit p cp ucm hbm"
proof -
  have nn: "0 \<le> hbm * cp" "0 \<le> start * cp" "hbm * cp \<le> start * cp" using assms(3-5) by (simp_all add: mult_right_mono)
  obtain t1 where l1: "lookup (py_from ucm (start * cp)) t =
      (Inr (int (length (takeWhile p (py_from ucm (start * cp)))) - 1), t1)"
    using documented_from [of lookup p ucm start cp t] doc by blast
  obtain t2 where l2: "lookup (py_from ucm (hbm * cp)) t1 =
      (Inr (int (length (takeWhile p (py_from ucm (hbm * cp)))) - 1), t2)"
    using documented_from [of lookup p ucm hbm cp t1] doc by blast
  show ?thesis
  proof (cases "resume \<and> full_hit p cp ucm start \<noteq> 0")
    case False
    then show ?thesis
      using assms(2,6,7) l1 l2 nn
      by (auto simp: external_lookup_def full_hit_def Let_def py_from_nonneg split: if_splits)
  next
    case True
    let ?m = "nat (start * cp) - nat (hbm * cp)"
    have "drop ?m (py_from ucm (hbm * cp)) = py_from ucm (start * cp)"
      using nn by (simp add: py_from_nonneg)
    moreover have "length (takeWhile p (py_from ucm (hbm * cp))) =
        ?m + length (takeWhile p (drop ?m (py_from ucm (hbm * cp))))"
      using held nn assms(7) True by (intro takeWhile_skip) (simp_all add: py_slice_nonneg py_from_nonneg)
    moreover have "int ?m = (start - hbm) * cp" using nn by (simp add: left_diff_distrib)
    ultimately have "full_hit p cp ucm hbm = (start - hbm) + full_hit p cp ucm start"
      using assms(3) by (simp add: full_hit_def)
    moreover have "py_from ucm (start * cp) \<noteq> []" using True assms(7) nn by (simp add: py_from_nonneg nat_less_iff)
    ultimately show ?thesis
      using True assms(2) l1 by (auto simp: external_lookup_def full_hit_def Let_def)
  qed
qed

lemma external_lookup_asks:
  "external_lookup lookup cp ucm hbm (start, resume) t = (ext, k, t') \<Longrightarrow>
   ext = py_from ucm (start * cp) \<or> ext = py_from ucm (hbm * cp)"
  by (auto simp: external_lookup_def Let_def split: if_splits prod.splits sum.splits)

section \<open>Facts about chunks\<close>

lemma run_chunks_dumps:
  assumes "run_chunks C rm chunks = (plans, rm')" "conf_ok C" "0 \<le> rm_token_processed rm"
    and "\<forall>(n, ids) \<in> set chunks. 0 \<le> n"
  shows "rm_ucm_block_ids rm' = rm_ucm_block_ids rm \<and> rm_num_token_ids rm' = rm_num_token_ids rm \<and>
    rm_token_processed rm \<le> rm_token_processed rm' \<and>
    min (rm_num_token_ids rm) (rm_token_processed rm + sum_list (map fst chunks)) \<le> rm_token_processed rm' \<and>
    concat (map (fst \<circ> dm_dump_block_ids) plans) =
      py_slice (rm_ucm_block_ids rm) (rm_token_processed rm div cf_block_size C * cf_cp_world_size C)
        (rm_token_processed rm' div cf_block_size C * cf_cp_world_size C)"
  using assms(1,3,4)
proof (induction chunks arbitrary: rm plans)
  case Nil
  have "0 \<le> rm_token_processed rm div cf_block_size C * cf_cp_world_size C"
    using assms(2) Nil.prems(2) by (simp add: conf_ok_def pos_imp_zdiv_nonneg_iff)
  with Nil show ?case by (simp add: py_slice_nonneg)
next
  case (Cons chunk chunks)
  obtain n ids where chunk: "chunk = (n, ids)" by (cases chunk)
  obtain plan rm1 where g: "generate_dispatch_meta C rm n ids False = (plan, rm1)" by fastforce
  obtain plans1 where r: "run_chunks C rm1 chunks = (plans1, rm')" and plans: "plans = plan # plans1"
    using Cons.prems(1) chunk g by (auto split: prod.splits)
  let ?b = "\<lambda>x. x div cf_block_size C * cf_cp_world_size C"
  have n: "0 \<le> n" using Cons.prems(3) chunk by simp
  have mono: "?b x \<le> ?b y" if "x \<le> y" for x y
    using that assms(2) by (intro mult_right_mono zdiv_mono1) (simp_all add: conf_ok_def)
  have nonneg: "0 \<le> ?b x" if "0 \<le> x" for x using mono [OF that] by simp
  have one: "rm_ucm_block_ids rm1 = rm_ucm_block_ids rm" "rm_num_token_ids rm1 = rm_num_token_ids rm"
    "rm_token_processed rm \<le> rm_token_processed rm1"
    "rm_token_processed rm1 = (if rm_token_processed rm < rm_num_token_ids rm
       then rm_token_processed rm + n else rm_token_processed rm)"
    "fst (dm_dump_block_ids plan) = py_slice (rm_ucm_block_ids rm) (?b (rm_token_processed rm)) (?b (rm_token_processed rm1))"
    using g n nonneg [OF Cons.prems(2)]
    by (auto simp: generate_dispatch_meta_def Let_def py_slice_nonneg split: if_splits)
  have pre: "0 \<le> rm_token_processed rm1" "\<forall>(n, ids) \<in> set chunks. 0 \<le> n"
    using one(3) Cons.prems(2,3) by simp_all
  have IH': "rm_ucm_block_ids rm' = rm_ucm_block_ids rm1" "rm_num_token_ids rm' = rm_num_token_ids rm1"
    "rm_token_processed rm1 \<le> rm_token_processed rm'"
    "min (rm_num_token_ids rm1) (rm_token_processed rm1 + sum_list (map fst chunks)) \<le> rm_token_processed rm'"
    "concat (map (fst \<circ> dm_dump_block_ids) plans1) =
       py_slice (rm_ucm_block_ids rm1) (?b (rm_token_processed rm1)) (?b (rm_token_processed rm'))"
    using Cons.IH [OF r pre] by blast+
  have "concat (map (fst \<circ> dm_dump_block_ids) plans) =
      py_slice (rm_ucm_block_ids rm) (?b (rm_token_processed rm)) (?b (rm_token_processed rm'))"
    using IH'(5) one(1,5) plans py_slice_append [OF nonneg [OF Cons.prems(2)] mono [OF one(3)] mono [OF IH'(3)]]
    by simp
  moreover have "min (rm_num_token_ids rm) (rm_token_processed rm + sum_list (map fst (chunk # chunks))) \<le> rm_token_processed rm'"
    using IH'(3,4) one(2,4) chunk by (auto split: if_splits)
  moreover have "rm_ucm_block_ids rm' = rm_ucm_block_ids rm" "rm_num_token_ids rm' = rm_num_token_ids rm"
    using IH'(1,2) one(1,2) by simp_all
  moreover have "rm_token_processed rm \<le> rm_token_processed rm'" using one(3) IH'(3) by (rule order_trans)
  ultimately show ?case by blast
qed

section \<open>Properties\<close>

text \<open>
  C30: the scheduler's books stay well formed. In every state vLLM can reach by any sequence
  of calls (including calls that raise), each tracked request has one entry whose HBM hits
  are at most its total hits, whose total hits are blocks it has, and whose processed tokens
  cover its HBM hits; every pending asynchronous load is non-empty, pairs each block with its
  identifiers, dumps nothing, and belongs to a request marked as loading asynchronously.
\<close>

theorem scheduler_invariant:
  assumes "sched_reach W P C st t" "lookup_bounded W" "conf_ok C"
  shows "sched_inv C st"
  using assms(1)
proof induction
  case (reach_init b t)
  show ?case by (simp add: sched_inv_def init_sched_def)
next
  case (reach_lookup st t n request r st' t')
  then show ?case using sched_inv_lookup [OF _ assms(2,3)] by blast
next
  case (reach_alloc st t req_id groups n r st')
  then show ?case using sched_inv_alloc [OF _ assms(3)] by blast
next
  case (reach_build st t out r st')
  then show ?case using sched_inv_build by blast
next
  case (reach_output st t meta)
  then show ?case by (simp add: sched_inv_output)
next
  case (reach_finished st t req_id r st')
  then show ?case using sched_inv_finished by blast
next
  case (reach_others st t es)
  then show ?case by simp
qed

lemma scheduler_invariant_witness:
  "sched_inv example_sched_conf
     (fst (snd (get_num_new_matched_tokens (script_world [''a'', ''b'']) example_sched_conf example_request 0
        (init_sched True) [])))"
proof -
  obtain r st t where run: "get_num_new_matched_tokens (script_world [''a'', ''b'']) example_sched_conf
      example_request 0 (init_sched True) [] = (r, st, t)" by (cases "get_num_new_matched_tokens
      (script_world [''a'', ''b'']) example_sched_conf example_request 0 (init_sched True) []")
  have "sched_reach (script_world [''a'', ''b'']) sorted_impl example_sched_conf st t"
    using sched_reach.reach_lookup [OF sched_reach.reach_init _ run] by simp
  then have "sched_inv example_sched_conf st"
    by (rule scheduler_invariant [OF _ script_world_bounded]) (simp add: conf_ok_def example_sched_conf_def)
  then show ?thesis by (simp add: run)
qed

text \<open>
  C7: a hit never takes the tokens that must be recomputed. Whatever the store answers, the
  number of tokens reported is not negative, and the tokens already computed plus those
  reported leave the reserve (one token; layerwise, two more than the speculative tokens)
  unless the local cache alone already eats into it. An asynchronous load is only announced
  for a positive number of tokens.
\<close>

theorem matched_tokens_leave_reserve:
  assumes "sched_inv C st" "lookup_bounded W" "conf_ok C" "0 \<le> n"
    and "get_num_new_matched_tokens W C request n st t = (Inr (m, load_async), st', t')"
  shows "0 \<le> m \<and> n + m \<le> max n (sr_num_tokens request - get_full_hit_recompute_tokens C) \<and>
    (load_async \<longrightarrow> 0 < m)"
  using assms(5)
proof (cases rule: get_num_cases)
  case (recorded st1 ids found)
  let ?hbm = "n div cf_block_size C"
  have pos: "0 < cf_block_size C" "0 < cf_cp_world_size C" using assms(3) by (simp_all add: conf_ok_def)
  have hbm: "0 \<le> ?hbm" "?hbm * cf_block_size C = n"
    using pos assms(4) recorded(1) by (auto simp: pos_imp_zdiv_nonneg_iff)
  have inv1: "sched_inv C st1"
    using sched_inv_forget [OF assms(1)] recorded(2) by (simp add: Let_def split: if_splits)
  obtain ext k t1 where found: "found = (ext, k, t1)" by (cases found)
  obtain start resume where plan: "lookup_start st1 (request_id (sr_request request)) ?hbm = (start, resume)"
    by fastforce
  have "0 \<le> k"
    using bounded_lookup.external_lookup_range [OF mgr_bounded [OF assms(2) pos(2)], of _ _ ids ?hbm start resume t]
      recorded(4) found plan hbm(1) lookup_start_range [OF inv1 plan hbm(1)] by metis
  from tokens_reported_bounds [OF this pos(1), where request = request and hbm = ?hbm] recorded(5) hbm(2) show ?thesis
    by (auto simp: found record_hit_eq Let_def split: if_splits)
qed (use assms(3,4) in auto)

lemma matched_tokens_leave_reserve_witness:
  "\<exists>m a st' t'. get_num_new_matched_tokens (script_world [''a'', ''b'', ''c'']) example_sched_conf example_request 0
     (init_sched True) [] = (Inr (m, a), st', t') \<and> m \<le> 11"
proof -
  let ?run = "get_num_new_matched_tokens (script_world [''a'', ''b'', ''c'']) example_sched_conf example_request 0
     (init_sched True) []"
  obtain r st' t' where run: "?run = (r, st', t')" by (cases ?run)
  moreover have "r \<noteq> Inl AssertionError"
    using run by (auto simp: get_num_new_matched_tokens_def Let_def split: sum.splits if_splits prod.splits)
  ultimately obtain m a where r: "r = Inr (m, a)"
    by (auto simp: get_num_new_matched_tokens_def Let_def split: sum.splits if_splits prod.splits)
  have inv: "sched_inv example_sched_conf (init_sched True)" by (simp add: sched_inv_def init_sched_def)
  have "m \<le> 11"
    using matched_tokens_leave_reserve [OF inv script_world_bounded _ _ run [unfolded r]]
    by (simp add: conf_ok_def example_sched_conf_def example_request_def get_full_hit_recompute_tokens_def)
  with run r show ?thesis by blast
qed

text \<open>
  C31: resuming a lookup from the last hit is the full lookup. With a store that answers as
  documented, looking up a request again, when the blocks before its last known hit are still
  trusted, records the same total as a lookup of everything after the HBM hits: the leading
  blocks all of whose identifiers are in the store and not marked as inconsistent.
\<close>

theorem resumed_lookup_is_full_lookup:
  fixes C st n present rm
  defines "hbm \<equiv> n div cf_block_size C" and "cp \<equiv> cf_cp_world_size C"
    and "ids \<equiv> rm_ucm_block_ids rm" and "ok \<equiv> trusted present (rank_consistency st)"
  assumes "sched_inv C st" "conf_ok C" "store_as_documented W (cf_store C) present"
    and "map_of (requests_meta st) (request_id (sr_request request)) = Some rm" "\<not> sr_preempted request"
    and "0 \<le> n" "n mod cf_block_size C = 0" "cf_persist_token_threshold C \<le> sr_num_tokens request"
    and "rm_hbm_hit_block_num rm \<le> hbm" "hbm * cp < int (length ids)"
    and "\<forall>b \<in> set (py_slice ids (hbm * cp) ((rm_total_hit_block_num rm - 1) * cp)). ok b"
  shows "\<exists>r st' t' rm'. get_num_new_matched_tokens W C request n st t = (Inr r, st', t') \<and>
    map_of (requests_meta st') (request_id (sr_request request)) = Some rm' \<and>
    rm_total_hit_block_num rm' = hbm + full_hit ok cp ids hbm"
proof -
  let ?q = "request_id (sr_request request)"
  let ?st = "forget_async_load ?q st"
  have pos: "0 < cf_block_size C" "0 < cp" using assms(6) by (simp_all add: conf_ok_def cp_def)
  have hbm: "0 \<le> hbm" using pos assms(10) by (simp add: hbm_def pos_imp_zdiv_nonneg_iff)
  have same: "requests_meta ?st = requests_meta st" "rank_consistency ?st = rank_consistency st"
    by (simp_all add: forget_async_load_def)
  obtain start resume where plan: "lookup_start ?st ?q hbm = (start, resume)" by fastforce
  have start: "hbm \<le> start" "resume \<or> start = hbm" "start * cp < int (length ids)"
    "\<forall>b \<in> set (py_slice ids (hbm * cp) (start * cp)). ok b"
  proof -
    have meta: "meta_ok C rm" using assms(5,8) by (auto simp: sched_inv_def dest!: map_of_SomeD)
    consider "start = rm_total_hit_block_num rm - 1" "resume" "rm_total_hit_block_num rm > hbm"
      | "start = hbm" "\<not> resume"
      using plan assms(8,13) by (auto simp: lookup_start_def same split: if_splits)
    then have "hbm \<le> start \<and> (resume \<or> start = hbm) \<and> start * cp < int (length ids) \<and>
        (\<forall>b \<in> set (py_slice ids (hbm * cp) (start * cp)). ok b)"
    proof cases
      case 1
      have "rm_total_hit_block_num rm * cp \<le> int (length ids)"
        using meta 1(3) assms(13) by (simp add: meta_ok_def ids_def cp_def)
      then show ?thesis using 1 assms(15) pos(2) by (simp add: left_diff_distrib)
    qed (use assms(14) hbm pos in \<open>simp add: py_slice_nonneg\<close>)
    then show "hbm \<le> start" "resume \<or> start = hbm" "start * cp < int (length ids)"
      "\<forall>b \<in> set (py_slice ids (hbm * cp) (start * cp)). ok b" by blast+
  qed
  obtain ext k t1 where found: "external_lookup (mgr_lookup_on_prefix W (rank_consistency st) (cf_store C))
      cp ids hbm (start, resume) t = (ext, k, t1)" by (metis prod_cases3)
  have doc: "fst (mgr_lookup_on_prefix W (rank_consistency st) (cf_store C) xs t) = Inr (lookup_on_prefix_doc ok xs)" for xs t
    unfolding ok_def trusted_def [abs_def] by (rule mgr_prefix_documented [OF assms(7)])
  have k: "k = full_hit ok cp ids hbm"
    using external_lookup_exact [OF doc found pos(2) hbm start(1,2) _ start(4)] start(3) by blast
  have "ext = py_from ids (start * cp) \<or> ext = py_from ids (hbm * cp)" by (rule external_lookup_asks [OF found])
  moreover have "0 \<le> hbm * cp" "0 \<le> start * cp" using hbm start(1) pos(2) by simp_all
  ultimately have ext: "ext \<noteq> []" using start(3) assms(14) by (auto simp: py_from_nonneg le_nat_iff)
  have "request_block_ids C ?st request = Inr ids"
    by (simp add: request_block_ids_def same assms(8) ids_def)
  then have "get_num_new_matched_tokens W C request n st t =
      (case record_hit W C request ids hbm (ext, k, t1) ?st of (r, st, t) \<Rightarrow> (Inr r, st, t))"
    using assms(9,11,12) plan found
    by (simp add: get_num_new_matched_tokens_def Let_def same hbm_def cp_def)
  then show ?thesis by (simp add: record_hit_eq ext Let_def k)
qed

lemma resumed_lookup_is_full_lookup_witness:
  "\<exists>r st' t' rm'. get_num_new_matched_tokens (script_world [''a'', ''b'', ''c'']) example_sched_conf example_request 0
     example_sched [] = (Inr r, st', t') \<and> map_of (requests_meta st') ''r'' = Some rm' \<and> rm_total_hit_block_num rm' = 3"
proof -
  let ?ok = "trusted (\<lambda>b. b \<in> set [''a'', ''b'', ''c'']) (rank_consistency example_sched)"
  have full: "full_hit ?ok 1 [''a'', ''b'', ''c''] 0 = 3"
    by (simp add: full_hit_def py_from_nonneg trusted_def example_sched_def init_sched_def init_manager_def init_tracker_def
        tracker_contains_def)
  have inv: "sched_inv example_sched_conf example_sched"
    by (simp add: sched_inv_def dict_wf_def example_sched_def init_sched_def meta_ok_def example_meta_def example_sched_conf_def)
  have docs: "store_as_documented (script_world [''a'', ''b'', ''c'']) (cf_store example_sched_conf)
      (\<lambda>b. b \<in> set [''a'', ''b'', ''c''])" by (rule script_world_documented)
  have found: "map_of (requests_meta example_sched) (request_id (sr_request example_request)) = Some example_meta"
    by (simp add: example_sched_def example_request_def plain_request_def)
  have held: "\<forall>b \<in> set (py_slice (rm_ucm_block_ids example_meta) (0 div cf_block_size example_sched_conf * cf_cp_world_size example_sched_conf)
      ((rm_total_hit_block_num example_meta - 1) * cf_cp_world_size example_sched_conf)). ?ok b"
    by (simp add: py_slice_nonneg trusted_def example_sched_def init_sched_def init_manager_def init_tracker_def
        tracker_contains_def example_meta_def example_sched_conf_def)
  show ?thesis
    using resumed_lookup_is_full_lookup [OF inv _ docs found _ _ _ _ _ _ held, of "[]"] full
    by (simp add: conf_ok_def example_sched_conf_def example_request_def example_meta_def plain_request_def)
qed

text \<open>
  C6: a chunked prefill dumps every full block exactly once. Whatever the chunk sizes, the
  dump lists of the successive steps, concatenated, are the contiguous run of identifiers
  from the first block not known to be stored to the last block completed, without gap or
  repetition; and once the chunks reach the end of the prompt, that run includes every full
  block of it.
\<close>

theorem chunked_prefill_dumps_once:
  assumes "run_chunks C rm chunks = (plans, rm')" "conf_ok C" "0 \<le> rm_token_processed rm"
    and "\<forall>(n, ids) \<in> set chunks. 0 \<le> n"
  shows "\<exists>e. concat (map (fst \<circ> dm_dump_block_ids) plans) =
      py_slice (rm_ucm_block_ids rm) (rm_token_processed rm div cf_block_size C * cf_cp_world_size C) e \<and>
    e = rm_token_processed rm' div cf_block_size C * cf_cp_world_size C \<and>
    (rm_num_token_ids rm \<le> rm_token_processed rm + sum_list (map fst chunks) \<longrightarrow>
       rm_num_token_ids rm div cf_block_size C * cf_cp_world_size C \<le> e)"
proof -
  note run = run_chunks_dumps [OF assms]
  have "rm_num_token_ids rm \<le> rm_token_processed rm'"
    if "rm_num_token_ids rm \<le> rm_token_processed rm + sum_list (map fst chunks)"
    using run that by linarith
  then have "rm_num_token_ids rm div cf_block_size C * cf_cp_world_size C
      \<le> rm_token_processed rm' div cf_block_size C * cf_cp_world_size C"
    if "rm_num_token_ids rm \<le> rm_token_processed rm + sum_list (map fst chunks)"
    using that assms(2) by (intro mult_right_mono zdiv_mono1) (simp_all add: conf_ok_def)
  with run show ?thesis by blast
qed

lemma chunked_prefill_dumps_once_witness:
  "\<exists>plans rm' e. run_chunks example_sched_conf example_meta [(3, [7, 8]), (4, [9])] = (plans, rm') \<and>
     concat (map (fst \<circ> dm_dump_block_ids) plans) = py_slice [''a'', ''b'', ''c''] 2 e \<and> 3 \<le> e"
proof -
  obtain plans rm' where run: "run_chunks example_sched_conf example_meta [(3, [7, 8]), (4, [9])] = (plans, rm')"
    by fastforce
  from chunked_prefill_dumps_once [OF run] obtain e where
    "concat (map (fst \<circ> dm_dump_block_ids) plans) =
      py_slice (rm_ucm_block_ids example_meta) (rm_token_processed example_meta div cf_block_size example_sched_conf * cf_cp_world_size example_sched_conf) e"
    "rm_num_token_ids example_meta div cf_block_size example_sched_conf * cf_cp_world_size example_sched_conf \<le> e"
    by (auto simp: conf_ok_def example_sched_conf_def example_meta_def)
  with run show ?thesis by (auto simp: example_sched_conf_def example_meta_def)
qed

lemma meta_numbers:
  assumes "meta_ok C rm" "conf_ok C"
  shows "0 < cf_block_size C" "0 < cf_cp_world_size C" "0 \<le> rm_hbm_hit_block_num rm"
    "rm_hbm_hit_block_num rm \<le> rm_total_hit_block_num rm" "0 \<le> rm_token_processed rm"
proof -
  show pos: "0 < cf_block_size C" "0 < cf_cp_world_size C" using assms(2) by (simp_all add: conf_ok_def)
  have "0 \<le> rm_hbm_hit_block_num rm * cf_block_size C" using assms(1) pos by (simp add: meta_ok_def)
  with assms(1) show "0 \<le> rm_token_processed rm" by (simp add: meta_ok_def)
qed (use assms(1) in \<open>simp_all add: meta_ok_def\<close>)

lemma plan_load_aligned:
  assumes "generate_dispatch_meta C rm n vllm need_load = (plan, rm')" "meta_ok C rm" "conf_ok C"
    and "need_load \<longrightarrow> rm_total_hit_block_num rm \<le> int (length vllm)"
  shows "aligned (cf_cp_world_size C) (rm_hbm_hit_block_num rm) (rm_ucm_block_ids rm) vllm (dm_load_block_ids plan)"
proof -
  note nums = meta_numbers [OF assms(2,3)]
  have "aligned (cf_cp_world_size C) (rm_hbm_hit_block_num rm) (rm_ucm_block_ids rm) vllm
      (py_slice (rm_ucm_block_ids rm) (rm_hbm_hit_block_num rm * cf_cp_world_size C) (rm_total_hit_block_num rm * cf_cp_world_size C),
       py_slice vllm (rm_hbm_hit_block_num rm) (rm_total_hit_block_num rm))" if need_load
  proof (cases "rm_hbm_hit_block_num rm < rm_total_hit_block_num rm")
    case True
    then show ?thesis using aligned_slices [OF nums(3,4,2)] assms(2,4) that unfolding meta_ok_def by blast
  next
    case False
    then show ?thesis using nums by (simp add: py_slice_nonneg)
  qed
  then show ?thesis using assms(1) by (auto simp: generate_dispatch_meta_def Let_def split: if_splits)
qed

lemma plan_dump_aligned:
  assumes "generate_dispatch_meta C rm n vllm need_load = (plan, rm')" "meta_ok C rm" "conf_ok C" "0 \<le> n"
    and "rm_token_processed rm + n \<le> int (length (rm_vllm_block_ids rm @ vllm)) * cf_block_size C"
    and "(rm_token_processed rm + n) div cf_block_size C * cf_cp_world_size C \<le> int (length (rm_ucm_block_ids rm))"
    and "rm_token_processed rm + n \<le> rm_num_token_ids rm"
  shows "aligned (cf_cp_world_size C) (dm_dump_block_start plan) (rm_ucm_block_ids rm) (rm_vllm_block_ids rm @ vllm)
      (dm_dump_block_ids plan)"
proof -
  note nums = meta_numbers [OF assms(2,3)]
  let ?bs = "cf_block_size C"
  let ?s = "rm_token_processed rm div ?bs" and ?e = "(rm_token_processed rm + n) div ?bs"
  have se: "0 \<le> ?s" "?s \<le> ?e" "?e \<le> int (length (rm_vllm_block_ids rm @ vllm))"
  proof -
    show "0 \<le> ?s" using nums by (simp add: pos_imp_zdiv_nonneg_iff)
    show "?s \<le> ?e" using assms(4) nums by (intro zdiv_mono1) simp_all
    have "?e \<le> int (length (rm_vllm_block_ids rm @ vllm)) * ?bs div ?bs"
      using assms(5) nums by (intro zdiv_mono1) simp_all
    then show "?e \<le> int (length (rm_vllm_block_ids rm @ vllm))" using nums by simp
  qed
  show ?thesis
    using assms(1,7) aligned_slices [OF se(1,2) nums(2) assms(6) se(3)]
    by (auto simp: generate_dispatch_meta_def Let_def split: if_splits)
qed

text \<open>
  C32: load and dump lists name the right device blocks. In the plan of one step, the device
  blocks and the store identifiers are cut at the same places: device block \<open>k\<close> of a list
  stands with the identifiers of the same block of the request, for the loads (from the first
  external block) and for the dumps (from the recorded start block), provided vLLM has
  allocated blocks for the tokens it scheduled.
\<close>

theorem dispatch_plan_aligned:
  assumes "generate_dispatch_meta C rm n vllm need_load = (plan, rm')" "meta_ok C rm" "conf_ok C" "0 \<le> n"
    and "need_load \<longrightarrow> rm_total_hit_block_num rm \<le> int (length vllm)"
    and "rm_token_processed rm + n \<le> int (length (rm_vllm_block_ids rm @ vllm)) * cf_block_size C"
    and "(rm_token_processed rm + n) div cf_block_size C * cf_cp_world_size C \<le> int (length (rm_ucm_block_ids rm))"
    and "rm_token_processed rm + n \<le> rm_num_token_ids rm"
  shows "aligned (cf_cp_world_size C) (rm_hbm_hit_block_num rm) (rm_ucm_block_ids rm) vllm (dm_load_block_ids plan) \<and>
    aligned (cf_cp_world_size C) (dm_dump_block_start plan) (rm_ucm_block_ids rm) (rm_vllm_block_ids rm @ vllm)
      (dm_dump_block_ids plan)"
  using plan_load_aligned [OF assms(1-3,5)] plan_dump_aligned [OF assms(1-4,6-8)] by blast

lemma dispatch_plan_aligned_witness:
  "\<exists>plan rm'. generate_dispatch_meta example_sched_conf example_meta 3 [7, 8, 9] True = (plan, rm') \<and>
     aligned 1 0 [''a'', ''b'', ''c''] [7, 8, 9] (dm_load_block_ids plan)"
proof -
  obtain plan rm' where g: "generate_dispatch_meta example_sched_conf example_meta 3 [7, 8, 9] True = (plan, rm')"
    by fastforce
  then show ?thesis
    using dispatch_plan_aligned [OF g]
    by (auto simp: meta_ok_def conf_ok_def example_sched_conf_def example_meta_def)
qed





end
