(* ===== verification/Direct_Worker.thy ===== *)
theory Direct_Worker
  imports Direct_Scheduler Device KV_Layout "HOL-Library.Multiset"
begin

text \<open>
  The worker side of \<open>UCMDirectConnector\<close> (ucm_connector.py): starting loads and waiting for
  them, dumping the blocks a step computed with one store task per step, polling and flushing
  those tasks, and reporting finished transfers and failures. After \<open>register_kv_caches\<close> the
  device is never \<open>None\<close> (it raises otherwise).
\<close>

section \<open>State\<close>

record pending_dump =
  pd_task :: task
  pd_request_ids :: "string set"
  pd_event_handle :: int
  pd_wait_for_save_start_ms :: real

record pending_load =
  pl_task :: task
  pl_request_id :: string
  pl_vllm_block_ids :: "int list"

record worker_conf =
  wc_tp_rank :: int
  wc_tp_size :: int
  wc_is_mla :: bool
  wc_enable_event_sync :: bool
  wc_skip_null_vllm_blocks :: bool
  wc_store :: store_ref
  wc_request_hasher :: "bytes \<Rightarrow> bytes"
  wc_kv_cache_layout :: kv_layout
  wc_block_data_size :: int

record worker =
  wk_rank_consistency :: manager
  wk_device :: device
  wk_connector_worker_meta :: worker_meta
  wk_invalid_block_ids :: "int set"
  wk_async_dump_req_ids :: "string set"
  wk_pending_dump_tasks :: "pending_dump list"
  wk_pending_load_tasks :: "(string \<times> pending_load) list"
  wk_finished_async_load_req_ids :: "string set"

definition init_worker :: "device_kind \<Rightarrow> bool \<Rightarrow> bool \<Rightarrow> worker" where
  "init_worker kind is_mla use_consistency_manager =
     \<lparr> wk_rank_consistency = init_manager False use_consistency_manager,
       wk_device = init_device kind, wk_connector_worker_meta = empty_worker_meta is_mla,
       wk_invalid_block_ids = {}, wk_async_dump_req_ids = {}, wk_pending_dump_tasks = [],
       wk_pending_load_tasks = [], wk_finished_async_load_req_ids = {} \<rparr>"

section \<open>Selecting blocks\<close>

definition drop_null_vllm_blocks :: "bytes list \<times> int list \<Rightarrow> bytes list \<times> int list" where
  "drop_null_vllm_blocks blocks =
     (case blocks of (ucm_block_ids, vllm_block_ids) \<Rightarrow>
        if ucm_block_ids = [] \<or> vllm_block_ids = [] then (ucm_block_ids, vllm_block_ids)
        else
          let kept = filter (\<lambda>(u, v). v \<noteq> 0) (zip ucm_block_ids vllm_block_ids)
          in (map fst kept, map snd kept))"

definition get_mla_dump_slice :: "int \<Rightarrow> int \<Rightarrow> int \<Rightarrow> int" where
  "get_mla_dump_slice tp_rank tp_size dump_block_start =
     (let rank = tp_rank mod tp_size in (rank - dump_block_start) mod tp_size)"

definition select_mla_dump_blocks ::
  "int \<Rightarrow> int \<Rightarrow> int \<Rightarrow> bytes list \<times> int list \<Rightarrow> bytes list \<times> int list" where
  "select_mla_dump_blocks tp_rank tp_size dump_block_start blocks =
     (let first_index = nat (get_mla_dump_slice tp_rank tp_size dump_block_start)
      in (py_stride (fst blocks) first_index (nat tp_size), py_stride (snd blocks) first_index (nat tp_size)))"

definition get_rank_dump_blocks :: "worker_conf \<Rightarrow> dispatch_meta \<Rightarrow> bytes list \<times> int list" where
  "get_rank_dump_blocks K request =
     (let blocks = dm_dump_block_ids request;
          blocks = (if wc_is_mla K
                    then select_mla_dump_blocks (wc_tp_rank K) (wc_tp_size K) (dm_dump_block_start request) blocks
                    else blocks)
      in if wc_skip_null_vllm_blocks K then drop_null_vllm_blocks blocks else blocks)"

definition rank_block_ids :: "worker_conf \<Rightarrow> bytes list \<Rightarrow> bytes list" where
  "rank_block_ids K ucm_block_ids =
     (if wc_tp_rank K \<noteq> 0 \<and> \<not> wc_is_mla K then map (wc_request_hasher K) ucm_block_ids else ucm_block_ids)"

text \<open>\<open>total_ptrs.reshape(total_ptrs.shape[0], -1)\<close>: numpy refuses to infer a size for no rows.\<close>

definition block_ptrs :: "worker_conf \<Rightarrow> int list \<Rightarrow> u64 list list res" where
  "block_ptrs K vllm_block_ids =
     bindR (extract_block_addrs (wc_kv_cache_layout K) vllm_block_ids False) (\<lambda>arr.
       let rows = (case arr of Addr2 rows \<Rightarrow> rows | Addr3 blocks \<Rightarrow> map concat blocks)
       in if rows = [] then Inl (ValueError ''cannot reshape array of size 0'') else Inr rows)"

section \<open>Loads\<close>

definition record_load_error :: "string \<Rightarrow> int list \<Rightarrow> worker \<Rightarrow> trace \<Rightarrow> worker \<times> trace" where
  "record_load_error metric_name block_ids wk t =
     (let invalid_blocks = set block_ids;
          new_invalid_blocks = invalid_blocks - wk_invalid_block_ids wk
      in (wk\<lparr>wk_invalid_block_ids := wk_invalid_block_ids wk \<union> invalid_blocks\<rparr>,
          update_stats [(metric_name, 1), (''connector_load_invalid_requests_total'', 1),
            (''connector_load_invalid_blocks_total'', of_nat (card new_invalid_blocks))] t))"

definition mark_failed :: "string \<Rightarrow> worker \<Rightarrow> worker" where
  "mark_failed req_id wk =
     wk\<lparr>wk_connector_worker_meta := meta_mark_failed req_id (wk_connector_worker_meta wk)\<rparr>"

definition finish_async_load :: "string \<Rightarrow> worker \<Rightarrow> worker" where
  "finish_async_load req_id wk =
     wk\<lparr>wk_finished_async_load_req_ids := insert req_id (wk_finished_async_load_req_ids wk)\<rparr>"

definition submit_request_load ::
  "world \<Rightarrow> worker_conf \<Rightarrow> string \<Rightarrow> bytes list \<Rightarrow> int list \<Rightarrow> worker \<Rightarrow> trace \<Rightarrow> task res \<times> worker \<times> trace" where
  "submit_request_load W K req_id ucm_block_ids vllm_block_ids wk t =
     (case block_ptrs K vllm_block_ids of
        Inl e \<Rightarrow> (Inl e, wk, t)
      | Inr total_ptrs \<Rightarrow>
          (case submit_load W (wc_store K) [(req_id, ucm_block_ids)] (rank_block_ids K ucm_block_ids)
                  (replicate (length ucm_block_ids) 0) total_ptrs (wc_is_mla K) (wk_rank_consistency wk) t of
             (r, m, t) \<Rightarrow> (r, wk\<lparr>wk_rank_consistency := m\<rparr>, t)))"

text \<open>The locals of \<open>start_load_kv\<close>: tasks to wait for with their block counts, and the counters.\<close>

record load_locals =
  ll_request_to_task :: "(string \<times> task) list"
  ll_request_to_load_blocks :: "(string \<times> int) list"
  ll_is_load :: bool
  ll_num_loaded_block :: int

definition load_request ::
  "world \<Rightarrow> worker_conf \<Rightarrow> string \<times> dispatch_meta \<Rightarrow> load_locals \<times> worker \<times> trace \<Rightarrow> load_locals \<times> worker \<times> trace" where
  "load_request W K item acc =
     (case (item, acc) of ((req_id, request), (ll, wk, t)) \<Rightarrow>
        let planned = length (fst (dm_load_block_ids request));
            sync_load = (\<not> dm_load_async request);
            count = (\<lambda>n ll. if sync_load then ll\<lparr>ll_num_loaded_block := ll_num_loaded_block ll + n\<rparr> else ll)
        in if planned = 0 then (ll, wk, t)
           else
             let ll = ll\<lparr>ll_is_load := ll_is_load ll \<or> sync_load\<rparr>;
                 (ucm_block_ids, vllm_block_ids) =
                   (if wc_skip_null_vllm_blocks K then drop_null_vllm_blocks (dm_load_block_ids request)
                    else dm_load_block_ids request)
             in if ucm_block_ids = []
                then (ll, if dm_load_async request then finish_async_load req_id wk else wk, t)
                else
                  let ll = count (int (length ucm_block_ids)) ll
                  in if dm_load_async request \<and> req_id \<in> fst ` set (wk_pending_load_tasks wk) then (ll, wk, t)
                     else case submit_request_load W K req_id ucm_block_ids vllm_block_ids wk t of
                       (Inr tk, wk, t) \<Rightarrow>
                         if dm_load_async request
                         then (ll, wk\<lparr>wk_pending_load_tasks := AList.update req_id
                                 \<lparr> pl_task = tk, pl_request_id = req_id, pl_vllm_block_ids = vllm_block_ids \<rparr>
                                 (wk_pending_load_tasks wk)\<rparr>, t)
                         else (ll\<lparr>ll_request_to_task := AList.update req_id tk (ll_request_to_task ll),
                                  ll_request_to_load_blocks :=
                                    AList.update req_id (int (length ucm_block_ids)) (ll_request_to_load_blocks ll)\<rparr>, wk, t)
                     | (Inl e, wk, t) \<Rightarrow>
                         (case record_load_error ''connector_load_submit_errors_total''
                                 (snd (dm_load_block_ids request) @ snd (dm_dump_block_ids request)) wk t of
                            (wk, t) \<Rightarrow>
                              let wk = mark_failed req_id wk
                              in (count (- int (length ucm_block_ids)) ll,
                                  if dm_load_async request then finish_async_load req_id wk else wk, t)))"

text \<open>
  \<open>start_load_kv\<close> submits every load of the step, then waits for the synchronous ones. The
  counters of a request whose blocks are all null are unchanged in the end, which is how they
  are written here.
\<close>

fun wait_loads ::
  "world \<Rightarrow> dispatches \<Rightarrow> (string \<times> task) list \<Rightarrow> load_locals \<times> worker \<times> trace \<Rightarrow> load_locals \<times> worker \<times> trace" where
  "wait_loads W plans [] acc = acc"
| "wait_loads W plans ((req_id, tk) # rest) (ll, wk, t) =
     (case wait_load W tk None (wk_rank_consistency wk) t of
        (Inr _, m, t) \<Rightarrow> wait_loads W plans rest (ll, wk\<lparr>wk_rank_consistency := m\<rparr>, t)
      | (Inl e, m, t) \<Rightarrow>
          (case map_of plans req_id of
             None \<Rightarrow> wait_loads W plans rest (ll, wk\<lparr>wk_rank_consistency := m\<rparr>, t)
           | Some request \<Rightarrow>
               (case record_load_error ''connector_load_wait_errors_total''
                       (snd (dm_load_block_ids request) @ snd (dm_dump_block_ids request))
                       (wk\<lparr>wk_rank_consistency := m\<rparr>) t of
                  (wk, t) \<Rightarrow>
                    wait_loads W plans rest
                      (ll\<lparr>ll_num_loaded_block := ll_num_loaded_block ll -
                            (case map_of (ll_request_to_load_blocks ll) req_id of None \<Rightarrow> 0 | Some n \<Rightarrow> n)\<rparr>,
                       mark_failed req_id wk, t))))"

definition start_load_kv ::
  "world \<Rightarrow> worker_conf \<Rightarrow> connector_metadata \<Rightarrow> worker \<Rightarrow> trace \<Rightarrow> worker \<times> trace" where
  "start_load_kv W K metadata wk t =
     (let plans = cm_request_meta metadata;
          ll = \<lparr> ll_request_to_task = [], ll_request_to_load_blocks = [], ll_is_load = False, ll_num_loaded_block = 0 \<rparr>
      in case fold (load_request W K) plans (ll, wk, t) of
           (ll, wk, t) \<Rightarrow>
             (case wait_loads W plans (ll_request_to_task ll) (ll, wk, t) of
                (ll, wk, t) \<Rightarrow>
                  (wk, if ll_is_load ll
                       then update_stats [(''load_bytes_total'', of_int (ll_num_loaded_block ll * wc_block_data_size K))] t
                       else t)))"

section \<open>Dumps\<close>

definition get_dump_event_handle :: "world \<Rightarrow> worker_conf \<Rightarrow> worker \<Rightarrow> trace \<Rightarrow> int res \<times> worker \<times> trace" where
  "get_dump_event_handle W K wk t =
     (if \<not> wc_enable_event_sync K
      then (case synchronize W t of (Inl e, t) \<Rightarrow> (Inl e, wk, t) | (Inr _, t) \<Rightarrow> (Inr 0, wk, t))
      else case get_event_handle W (wk_device wk) t of
             (event_handle, d, t) \<Rightarrow>
               let wk = wk\<lparr>wk_device := d\<rparr>
               in if event_handle = 0
                  then (case synchronize W t of (Inl e, t) \<Rightarrow> (Inl e, wk, t) | (Inr _, t) \<Rightarrow> (Inr 0, wk, t))
                  else (Inr event_handle, wk, t))"

definition release_dump_event_handle :: "worker_conf \<Rightarrow> int \<Rightarrow> worker \<Rightarrow> trace \<Rightarrow> worker \<times> trace" where
  "release_dump_event_handle K event_handle wk t =
     (if wc_enable_event_sync K \<and> event_handle \<noteq> 0
      then (case destroy_event_handle (wk_device wk) event_handle t of (d, t) \<Rightarrow> (wk\<lparr>wk_device := d\<rparr>, t))
      else (wk, t))"

definition non_negative_ms :: "real \<Rightarrow> real" where
  "non_negative_ms v = max v 0"

definition wait_pending_dump_task ::
  "world \<Rightarrow> worker_conf \<Rightarrow> pending_dump \<Rightarrow> worker \<Rightarrow> trace \<Rightarrow> unit res \<times> worker \<times> trace" where
  "wait_pending_dump_task W K pd wk t =
     (case perf_counter_ms W t of (wait_start_ms, t) \<Rightarrow>
        (case wait_dump W (pd_task pd) (wk_rank_consistency wk) t of
           (r, m, t) \<Rightarrow>
             let wk = wk\<lparr>wk_rank_consistency := m\<rparr>;
                 t = (case r of
                        Inl _ \<Rightarrow> t
                      | Inr _ \<Rightarrow>
                          (case perf_counter_ms W t of (wait_end_ms, t) \<Rightarrow>
                             update_stats
                               ((if pd_wait_for_save_start_ms pd > 0
                                 then [(''save_duration'', non_negative_ms (wait_end_ms - pd_wait_for_save_start_ms pd))]
                                 else []) @
                                [(''save_completion_wait_duration'', non_negative_ms (wait_end_ms - wait_start_ms))]) t))
             in (case release_dump_event_handle K (pd_event_handle pd) wk t of (wk, t) \<Rightarrow> (r, wk, t))))"

text \<open>Each loop returns the tasks that remain pending; a failed wait is logged and dropped.\<close>

fun poll_loop ::
  "world \<Rightarrow> worker_conf \<Rightarrow> pending_dump list \<Rightarrow> worker \<Rightarrow> trace \<Rightarrow> pending_dump list \<times> worker \<times> trace" where
  "poll_loop W K [] wk t = ([], wk, t)"
| "poll_loop W K (pd # pds) wk t =
     (case store_check W (wc_store K) (pd_task pd) t of
        (Inr True, t) \<Rightarrow>
          (case wait_pending_dump_task W K pd wk t of (_, wk, t) \<Rightarrow> poll_loop W K pds wk t)
      | (_, t) \<Rightarrow> (case poll_loop W K pds wk t of (remaining, wk, t) \<Rightarrow> (pd # remaining, wk, t)))"

definition poll_pending_dump_tasks :: "world \<Rightarrow> worker_conf \<Rightarrow> worker \<Rightarrow> trace \<Rightarrow> worker \<times> trace" where
  "poll_pending_dump_tasks W K wk t =
     (case poll_loop W K (wk_pending_dump_tasks wk) wk t of
        (remaining, wk, t) \<Rightarrow> (wk\<lparr>wk_pending_dump_tasks := remaining\<rparr>, t))"

fun wait_loop ::
  "world \<Rightarrow> worker_conf \<Rightarrow> (pending_dump \<Rightarrow> bool) \<Rightarrow> pending_dump list \<Rightarrow> worker \<Rightarrow> trace \<Rightarrow>
   pending_dump list \<times> worker \<times> trace" where
  "wait_loop W K selected [] wk t = ([], wk, t)"
| "wait_loop W K selected (pd # pds) wk t =
     (if \<not> selected pd
      then (case wait_loop W K selected pds wk t of (remaining, wk, t) \<Rightarrow> (pd # remaining, wk, t))
      else (case wait_pending_dump_task W K pd wk t of (_, wk, t) \<Rightarrow> wait_loop W K selected pds wk t))"

definition flush_pending_dump_tasks ::
  "world \<Rightarrow> worker_conf \<Rightarrow> string set option \<Rightarrow> worker \<Rightarrow> trace \<Rightarrow> worker \<times> trace" where
  "flush_pending_dump_tasks W K request_ids wk t =
     (case wait_loop W K (\<lambda>pd. case request_ids of None \<Rightarrow> True | Some ids \<Rightarrow> pd_request_ids pd \<inter> ids \<noteq> {})
             (wk_pending_dump_tasks wk) (wk\<lparr>wk_pending_dump_tasks := []\<rparr>) t of
        (remaining, wk, t) \<Rightarrow> (wk\<lparr>wk_pending_dump_tasks := remaining\<rparr>, t))"

definition handle_preemptions ::
  "world \<Rightarrow> worker_conf \<Rightarrow> string set \<Rightarrow> worker \<Rightarrow> trace \<Rightarrow> worker \<times> trace" where
  "handle_preemptions W K preempted_req_ids wk t =
     (if preempted_req_ids \<noteq> {} then flush_pending_dump_tasks W K (Some preempted_req_ids) wk t else (wk, t))"

text \<open>What \<open>wait_for_save\<close> gathers: per request the rank's blocks, in the order of the plans.\<close>

definition rank_dumps :: "worker_conf \<Rightarrow> dispatches \<Rightarrow> (string \<times> bytes list \<times> int list) list" where
  "rank_dumps K plans =
     filter (\<lambda>(_, ucm_block_ids, _). ucm_block_ids \<noteq> [])
       (map (\<lambda>(req_id, request). (req_id, get_rank_dump_blocks K request))
          (filter (\<lambda>(_, request). fst (dm_dump_block_ids request) \<noteq> []) plans))"

definition submit_step_dump ::
  "world \<Rightarrow> worker_conf \<Rightarrow> (string \<times> bytes list \<times> int list) list \<Rightarrow> worker \<Rightarrow> trace \<Rightarrow>
   (task \<times> int) res \<times> worker \<times> trace" where
  "submit_step_dump W K dumps wk t =
     (let total_ucm_block_ids = concat (map (\<lambda>(_, u, _). rank_block_ids K u) dumps);
          total_vllm_block_ids = concat (map (\<lambda>(_, _, v). v) dumps);
          block_ids_by_request = map (\<lambda>(req_id, u, _). (req_id, set u)) dumps
      in case block_ptrs K total_vllm_block_ids of
           Inl e \<Rightarrow> (Inl e, wk, t)
         | Inr total_ptrs \<Rightarrow>
             (case get_dump_event_handle W K wk t of
                (Inl e, wk, t) \<Rightarrow> (Inl e, wk, t)
              | (Inr event_handle, wk, t) \<Rightarrow>
                  (case submit_dump W (wc_store K) block_ids_by_request total_ucm_block_ids
                          (replicate (length total_ucm_block_ids) 0) total_ptrs event_handle
                          (wk_rank_consistency wk) t of
                     (Inr tk, m, t) \<Rightarrow> (Inr (tk, event_handle), wk\<lparr>wk_rank_consistency := m\<rparr>, t)
                   | (Inl e, m, t) \<Rightarrow>
                       (case release_dump_event_handle K event_handle (wk\<lparr>wk_rank_consistency := m\<rparr>) t of
                          (wk, t) \<Rightarrow> (Inl e, wk, t)))))"

definition wait_for_save ::
  "world \<Rightarrow> worker_conf \<Rightarrow> connector_metadata \<Rightarrow> worker \<Rightarrow> trace \<Rightarrow> worker \<times> trace" where
  "wait_for_save W K metadata wk t =
     (case perf_counter_ms W t of (wait_for_save_start_ms, t) \<Rightarrow>
        (case poll_pending_dump_tasks W K wk t of (wk, t) \<Rightarrow>
           let plans = cm_request_meta metadata;
               wk = wk\<lparr>wk_async_dump_req_ids := wk_async_dump_req_ids wk \<union>
                        {req_id. \<exists>request. (req_id, request) \<in> set plans \<and> fst (dm_dump_block_ids request) \<noteq> []}\<rparr>;
               dumps = rank_dumps K plans
           in if dumps = [] then (wk, t)
              else case submit_step_dump W K dumps wk t of
                     (Inl e, wk, t) \<Rightarrow> (wk, t)
                   | (Inr (tk, event_handle), wk, t) \<Rightarrow>
                       let num_saved_block = sum_list (map (\<lambda>(_, u, _). int (length u)) dumps)
                       in (wk\<lparr>wk_pending_dump_tasks := wk_pending_dump_tasks wk @
                                [\<lparr> pd_task = tk, pd_request_ids = fst ` set dumps, pd_event_handle = event_handle,
                                   pd_wait_for_save_start_ms = wait_for_save_start_ms \<rparr>]\<rparr>,
                           update_stats [(''save_bytes_total'', of_int (num_saved_block * wc_block_data_size K))] t)))"

section \<open>Reports\<close>

definition get_block_ids_with_load_errors :: "worker \<Rightarrow> int set \<times> worker" where
  "get_block_ids_with_load_errors wk = (wk_invalid_block_ids wk, wk\<lparr>wk_invalid_block_ids := {}\<rparr>)"

definition build_connector_worker_meta :: "worker \<Rightarrow> worker_meta option \<times> worker" where
  "build_connector_worker_meta wk =
     (let m = wk_rank_consistency wk; wm = wk_connector_worker_meta wk
      in if \<not> enabled m \<and> wm_load_failed_reqs wm = {} then (None, wk)
         else case update_worker_meta wm m of
                (meta, m) \<Rightarrow>
                  (Some meta, wk\<lparr>wk_rank_consistency := m,
                                 wk_connector_worker_meta := empty_worker_meta (wm_is_mla meta)\<rparr>))"

fun poll_load_loop ::
  "world \<Rightarrow> (string \<times> pending_load) list \<Rightarrow> string set \<times> worker \<times> trace \<Rightarrow> string set \<times> worker \<times> trace" where
  "poll_load_loop W [] acc = acc"
| "poll_load_loop W ((req_id, pending) # rest) (finished, wk, t) =
     (let failed = (\<lambda>wk t.
            case record_load_error ''connector_load_wait_errors_total'' (pl_vllm_block_ids pending) wk t of
              (wk, t) \<Rightarrow> (mark_failed req_id wk, t));
          complete = (\<lambda>(wk, t).
            poll_load_loop W rest
              (insert req_id finished,
               wk\<lparr>wk_pending_load_tasks := AList.delete req_id (wk_pending_load_tasks wk)\<rparr>, t))
      in case check_load W (pl_task pending) (wk_rank_consistency wk) t of
           (Inl e, m, t) \<Rightarrow> complete (failed (wk\<lparr>wk_rank_consistency := m\<rparr>) t)
         | (Inr False, m, t) \<Rightarrow> poll_load_loop W rest (finished, wk\<lparr>wk_rank_consistency := m\<rparr>, t)
         | (Inr True, m, t) \<Rightarrow>
             (case wait_load W (pl_task pending) None m t of
                (Inr _, m, t) \<Rightarrow> complete (wk\<lparr>wk_rank_consistency := m\<rparr>, t)
              | (Inl e, m, t) \<Rightarrow> complete (failed (wk\<lparr>wk_rank_consistency := m\<rparr>) t)))"

definition poll_pending_load_tasks :: "world \<Rightarrow> worker \<Rightarrow> trace \<Rightarrow> string set \<times> worker \<times> trace" where
  "poll_pending_load_tasks W wk t =
     poll_load_loop W (wk_pending_load_tasks wk)
       (wk_finished_async_load_req_ids wk, wk\<lparr>wk_finished_async_load_req_ids := {}\<rparr>, t)"

text \<open>The finished dumps and loads; an empty set is returned as \<open>None\<close> by the code.\<close>

definition get_finished ::
  "world \<Rightarrow> worker_conf \<Rightarrow> string set \<Rightarrow> worker \<Rightarrow> trace \<Rightarrow> (string set \<times> string set) res \<times> worker \<times> trace" where
  "get_finished W K finished_req_ids wk t =
     (case poll_pending_load_tasks W wk t of (finished_recving, wk, t) \<Rightarrow>
        let async_finished_req_ids = finished_req_ids \<inter> wk_async_dump_req_ids wk
        in case (if async_finished_req_ids \<noteq> {}
                 then (case wait_loop W K (\<lambda>pd. pd_request_ids pd \<inter> async_finished_req_ids \<noteq> {})
                              (wk_pending_dump_tasks wk) wk t of
                         (remaining, wk, t) \<Rightarrow> (wk\<lparr>wk_pending_dump_tasks := remaining\<rparr>, t))
                 else (wk, t)) of
             (wk, t) \<Rightarrow>
               (case finish_dump async_finished_req_ids (wk_rank_consistency wk) of
                  (Inl e, m) \<Rightarrow> (Inl e, wk\<lparr>wk_rank_consistency := m\<rparr>, t)
                | (Inr _, m) \<Rightarrow>
                    (Inr (async_finished_req_ids, finished_recving),
                     wk\<lparr>wk_rank_consistency := m,
                        wk_async_dump_req_ids := wk_async_dump_req_ids wk - async_finished_req_ids\<rparr>, t)))"

section \<open>Vocabulary of the properties\<close>

text \<open>The dumps the manager still waits for: a task and the requests it belongs to.\<close>

definition open_dumps :: "manager \<Rightarrow> (task \<times> string set) set" where
  "open_dumps m = (if enabled m then (\<lambda>(tk, store, ctx). (tk, fst ` set ctx)) ` set (dump_task_contexts m) else {})"

definition booked :: "pending_dump list \<Rightarrow> (task \<times> string set) set" where
  "booked pds = (\<lambda>pd. (pd_task pd, pd_request_ids pd)) ` set pds"

text \<open>The worker's book: every dump the manager still waits for is a pending task of the worker.\<close>

definition books_ok :: "worker \<Rightarrow> bool" where
  "books_ok wk \<longleftrightarrow> open_dumps (wk_rank_consistency wk) \<subseteq> booked (wk_pending_dump_tasks wk)"

definition held_handles :: "pending_dump list \<Rightarrow> int list" where
  "held_handles pds = filter (\<lambda>h. h \<noteq> 0) (map pd_event_handle pds)"

text \<open>The device side of a state: NPU events alive are those held, by the device and by tasks.\<close>

definition events_ok :: "pending_dump list \<Rightarrow> device \<Rightarrow> trace \<Rightarrow> bool" where
  "events_ok pds d t \<longleftrightarrow>
     dev_kind d = NpuDevice \<and> dev_events d = acl_alive t \<and> destroys_alive {} t \<and>
     distinct (held_handles pds) \<and> set (held_handles pds) = dev_events d"

definition events_kept :: "worker_conf \<Rightarrow> pending_dump list \<Rightarrow> worker \<Rightarrow> trace \<Rightarrow> bool" where
  "events_kept K pds wk t \<longleftrightarrow>
     events_ok pds (wk_device wk) t \<and> (wc_enable_event_sync K \<or> held_handles pds = [])"

text \<open>A piece of trace in which nothing is said to the ACL runtime.\<close>

fun acl_silent :: "event \<Rightarrow> bool" where
  "acl_silent (AclCreateEvent r) = False"
| "acl_silent (AclDestroyEvent h) = False"
| "acl_silent ev = True"

definition quiet :: "trace \<Rightarrow> trace \<Rightarrow> bool" where
  "quiet t t' \<longleftrightarrow> (\<exists>es. t' = t @ es \<and> list_all acl_silent es)"

text \<open>An operation that leaves dumps, device and ACL alone.\<close>

definition dump_side_same :: "worker \<times> trace \<Rightarrow> worker \<times> trace \<Rightarrow> bool" where
  "dump_side_same a b \<longleftrightarrow>
     open_dumps (wk_rank_consistency (fst b)) = open_dumps (wk_rank_consistency (fst a)) \<and>
     wk_device (fst b) = wk_device (fst a) \<and>
     wk_pending_dump_tasks (fst b) = wk_pending_dump_tasks (fst a) \<and>
     wk_async_dump_req_ids (fst b) = wk_async_dump_req_ids (fst a) \<and> quiet (snd a) (snd b)"

text \<open>
  What became of a load: the events of one call, a load the store accepted and completed, and a
  failure told to both sides (the scheduler by request, vLLM by block).
\<close>

definition events_since :: "trace \<Rightarrow> trace \<Rightarrow> event set" where
  "events_since t t' = set (drop (length t) t')"

definition load_accepted :: "worker_conf \<Rightarrow> dispatch_meta \<Rightarrow> task \<Rightarrow> event set \<Rightarrow> bool" where
  "load_accepted K request tk E \<longleftrightarrow>
     (\<exists>shards ptrs opt. LoadData (wc_store K) (rank_block_ids K (fst (dm_load_block_ids request))) shards ptrs opt (Inr tk) \<in> E)"

definition load_waited :: "task \<Rightarrow> event set \<Rightarrow> bool" where
  "load_waited tk E \<longleftrightarrow> (\<exists>store. WaitTask store tk (Inr ()) \<in> E)"

definition load_running :: "task \<Rightarrow> event set \<Rightarrow> bool" where
  "load_running tk E \<longleftrightarrow> (\<exists>store. CheckTask store tk (Inr False) \<in> E)"

definition load_failed :: "string \<Rightarrow> pending_load \<Rightarrow> worker \<Rightarrow> bool" where
  "load_failed q pl wk \<longleftrightarrow>
     q \<in> wm_load_failed_reqs (wk_connector_worker_meta wk) \<and> set (pl_vllm_block_ids pl) \<subseteq> wk_invalid_block_ids wk"

definition load_reported :: "string \<Rightarrow> dispatch_meta \<Rightarrow> worker \<Rightarrow> bool" where
  "load_reported q request wk \<longleftrightarrow>
     q \<in> wm_load_failed_reqs (wk_connector_worker_meta wk) \<and>
     set (snd (dm_load_block_ids request)) \<union> set (snd (dm_dump_block_ids request)) \<subseteq> wk_invalid_block_ids wk"

definition reports_grow :: "worker \<times> trace \<Rightarrow> worker \<times> trace \<Rightarrow> bool" where
  "reports_grow a b \<longleftrightarrow>
     wm_load_failed_reqs (wk_connector_worker_meta (fst a)) \<subseteq> wm_load_failed_reqs (wk_connector_worker_meta (fst b)) \<and>
     wk_invalid_block_ids (fst a) \<subseteq> wk_invalid_block_ids (fst b) \<and> (\<exists>es. snd b = snd a @ es)"

text \<open>Everything vLLM may call on a worker, in any order.\<close>

inductive worker_reach :: "device_kind \<Rightarrow> world \<Rightarrow> worker_conf \<Rightarrow> worker \<Rightarrow> trace \<Rightarrow> bool" for kind W K where
  worker_init: "worker_reach kind W K (init_worker kind is_mla use) []"
| worker_load: "worker_reach kind W K wk t \<Longrightarrow> start_load_kv W K metadata wk t = (wk', t') \<Longrightarrow> worker_reach kind W K wk' t'"
| worker_save: "worker_reach kind W K wk t \<Longrightarrow> wait_for_save W K metadata wk t = (wk', t') \<Longrightarrow> worker_reach kind W K wk' t'"
| worker_preempt: "worker_reach kind W K wk t \<Longrightarrow> handle_preemptions W K ids wk t = (wk', t') \<Longrightarrow> worker_reach kind W K wk' t'"
| worker_finished: "worker_reach kind W K wk t \<Longrightarrow> get_finished W K F wk t = (r, wk', t') \<Longrightarrow> worker_reach kind W K wk' t'"
| worker_errors: "worker_reach kind W K wk t \<Longrightarrow> get_block_ids_with_load_errors wk = (S, wk') \<Longrightarrow> worker_reach kind W K wk' t"
| worker_report: "worker_reach kind W K wk t \<Longrightarrow> build_connector_worker_meta wk = (wm, wk') \<Longrightarrow> worker_reach kind W K wk' t"
| worker_others: "worker_reach kind W K wk t \<Longrightarrow> list_all acl_silent es \<Longrightarrow> worker_reach kind W K wk (t @ es)"

text \<open>A rank of two with one MLA layer, and a step that loads one block and dumps two.\<close>

definition example_worker_conf :: worker_conf where
  "example_worker_conf =
     \<lparr> wc_tp_rank = 0, wc_tp_size = 2, wc_is_mla = True, wc_enable_event_sync = True,
       wc_skip_null_vllm_blocks = False, wc_store = 0, wc_request_hasher = (\<lambda>b. b),
       wc_kv_cache_layout =
         \<lparr> lay_layerwise = False, lay_pp_size = 1, lay_num_layers = 1, base_ptrs = [[4096]], buffer_sizes = [[128]],
           tensor_size_lists = [[32]], block_stride_lists = [[32]] \<rparr>,
       wc_block_data_size = 32 \<rparr>"

definition example_plan :: dispatch_meta where
  "example_plan =
     \<lparr> dm_load_block_ids = ([''a''], [1]), dm_dump_block_ids = ([''b'', ''c''], [2, 3]), dm_dump_block_start = 1,
       dm_load_async = False \<rparr>"

definition example_metadata :: connector_metadata where
  "example_metadata = \<lparr> cm_request_meta = [(''r'', example_plan)], cm_preempted_req_ids = {} \<rparr>"

section \<open>The dump ledger as an interface\<close>

locale dump_ledger =
  fixes opened :: "'m \<Rightarrow> (task \<times> string set) set"
    and submit :: "(string \<times> bytes set) list \<Rightarrow> 'm \<Rightarrow> trace \<Rightarrow> task res \<times> 'm \<times> trace"
    and wait :: "task \<Rightarrow> 'm \<Rightarrow> trace \<Rightarrow> unit res \<times> 'm \<times> trace"
    and finish :: "string set \<Rightarrow> 'm \<Rightarrow> unit res \<times> 'm"
  assumes submitted: "submit ctx m t = (Inr tk, m', t') \<Longrightarrow> opened m' \<subseteq> insert (tk, fst ` set ctx) (opened m)"
    and rejected: "submit ctx m t = (Inl e, m', t') \<Longrightarrow> opened m' = opened m"
    and waited: "wait tk m t = (r, m', t') \<Longrightarrow> opened m' = {p \<in> opened m. fst p \<noteq> tk}"
    and finished: "\<forall>p \<in> opened m. snd p \<inter> F = {} \<Longrightarrow> \<exists>m'. finish F m = (Inr (), m')"
    and finish_keeps: "finish F m = (r, m') \<Longrightarrow> opened m' = opened m"
begin

text \<open>A client that keeps a book of what it submitted and strikes out what it waits for.\<close>

lemma book_submit:
  "opened m \<subseteq> S \<Longrightarrow> submit ctx m t = (Inr tk, m', t') \<Longrightarrow> opened m' \<subseteq> insert (tk, fst ` set ctx) S"
  using submitted by blast

lemma book_wait:
  assumes "opened m \<subseteq> insert (tk, ids) S" "wait tk m t = (r, m', t')"
  shows "opened m' \<subseteq> S"
  using assms(1) waited [OF assms(2)] by auto

lemma book_finish:
  assumes "opened m \<subseteq> S" "\<forall>p \<in> S. snd p \<inter> F = {}"
  shows "\<exists>m'. finish F m = (Inr (), m') \<and> opened m' \<subseteq> S"
proof -
  from assms have "\<forall>p \<in> opened m. snd p \<inter> F = {}" by blast
  then obtain m' where "finish F m = (Inr (), m')" using finished by blast
  with finish_keeps assms(1) show ?thesis by blast
qed

end

lemma update_subset: "set (AList.update k v d) \<subseteq> insert (k, v) (set d)"
  using dict_mem_update by fastforce

lemma delete_set: "set (AList.delete k d) = {p \<in> set d. fst p \<noteq> k}"
  by (auto simp: AList.delete_eq)

lemma record_dump_failure_frame [frame_simps]:
  "enabled (record_dump_failure ctx m) = enabled m"
  "dump_task_contexts (record_dump_failure ctx m) = dump_task_contexts m"
  by (simp_all add: record_dump_failure_def)

lemma submit_dump_contexts:
  assumes "submit_dump W store ctx ids shards ptrs handle m t = (r, m', t')"
  shows "enabled m' = enabled m"
    and "r = Inr tk \<Longrightarrow> dump_task_contexts m' = AList.update tk (store, if enabled m then ctx else []) (dump_task_contexts m)"
    and "r = Inl e \<Longrightarrow> dump_task_contexts m' = dump_task_contexts m"
  using assms by (auto simp: submit_dump_def Let_def frame_simps split: sum.splits prod.splits)

lemma wait_dump_contexts:
  assumes "wait_dump W tk m t = (r, m', t')"
  shows "enabled m' = enabled m \<and> set (dump_task_contexts m') = {p \<in> set (dump_task_contexts m). fst p \<noteq> tk}"
proof (cases "map_of (dump_task_contexts m) tk")
  case None
  then have "tk \<notin> fst ` set (dump_task_contexts m)" by (simp add: map_of_eq_None_iff)
  then have "{p \<in> set (dump_task_contexts m). fst p \<noteq> tk} = set (dump_task_contexts m)" by force
  with None assms show ?thesis by (simp add: wait_dump_def)
next
  case (Some sc)
  then show ?thesis
    using assms by (cases sc) (auto simp: wait_dump_def Let_def frame_simps delete_set split: sum.splits prod.splits)
qed

lemma image_filter_fst: "(\<And>p. fst (f p) = fst p) \<Longrightarrow> f ` {p \<in> S. fst p \<noteq> k} = {p \<in> f ` S. fst p \<noteq> k}"
  by auto

lemma open_dumps_image:
  "open_dumps m = (\<lambda>(tk, store, ctx). (tk, fst ` set ctx)) ` (if enabled m then set (dump_task_contexts m) else {})"
  by (simp add: open_dumps_def)

lemma open_dumps_submitted:
  assumes "submit_dump W store ctx ids shards ptrs handle m t = (Inr tk, m', t')"
  shows "open_dumps m' \<subseteq> insert (tk, fst ` set ctx) (open_dumps m)"
proof (cases "enabled m")
  case True
  have sub: "set (dump_task_contexts m') \<subseteq> insert (tk, store, ctx) (set (dump_task_contexts m))"
    using submit_dump_contexts(2) [OF assms refl] update_subset True by metis
  from image_mono [OF this, of "\<lambda>(tk, store, ctx). (tk, fst ` set ctx)"] True submit_dump_contexts(1) [OF assms]
  show ?thesis by (simp add: open_dumps_image)
next
  case False
  with submit_dump_contexts(1) [OF assms] show ?thesis by (simp add: open_dumps_image)
qed

lemma open_dumps_rejected:
  assumes "submit_dump W store ctx ids shards ptrs handle m t = (Inl e, m', t')"
  shows "open_dumps m' = open_dumps m"
  using submit_dump_contexts(1) [OF assms] submit_dump_contexts(3) [OF assms refl] by (simp add: open_dumps_image)

lemma open_dumps_waited:
  assumes "wait_dump W tk m t = (r, m', t')"
  shows "open_dumps m' = {p \<in> open_dumps m. fst p \<noteq> tk}"
  using wait_dump_contexts [OF assms] by (simp add: open_dumps_image case_prod_beta image_filter_fst)

lemma open_dumps_finished:
  assumes "\<forall>p \<in> open_dumps m. snd p \<inter> F = {}"
  shows "\<exists>m'. finish_dump F m = (Inr (), m')"
proof (cases "enabled m")
  case True
  have "fst ` set ctx \<inter> F = {}" if "(tk, store, ctx) \<in> set (dump_task_contexts m)" for tk store ctx
    using assms that True by (force simp: open_dumps_image)
  then have "F \<inter> pending_request_ids m = {}"
    unfolding pending_request_ids_def by (fastforce simp: disjoint_iff)
  with True show ?thesis by (simp add: finish_dump_def)
qed (simp add: finish_dump_def)

lemma open_dumps_kept:
  assumes "finish_dump F m = (r, m')"
  shows "open_dumps m' = open_dumps m"
proof -
  from assms have "enabled m' = enabled m" "dump_task_contexts m' = dump_task_contexts m"
    by (auto simp: finish_dump_def split: if_splits)
  then show ?thesis by (simp add: open_dumps_def)
qed

interpretation manager_ledger: dump_ledger open_dumps
  "\<lambda>ctx. submit_dump W store ctx ids shards ptrs handle" "wait_dump W" finish_dump
  for W store ids shards ptrs handle
  by unfold_locales
    (fact open_dumps_submitted open_dumps_rejected open_dumps_waited open_dumps_finished open_dumps_kept)+

section \<open>Facts about operations that do not touch dumps\<close>

lemma quiet_refl [simp]: "quiet t t"
  by (auto simp: quiet_def intro: exI [of _ "[]"])

lemma quiet_trans: "quiet a b \<Longrightarrow> quiet b c \<Longrightarrow> quiet a c"
  by (auto simp: quiet_def)

lemma quiet_snoc [simp]: "acl_silent ev \<Longrightarrow> quiet t (t @ [ev])"
  by (auto simp: quiet_def)

lemma silent_alive: "acl_silent ev \<Longrightarrow> acl_alive_after ev L = L"
  by (cases ev) auto

lemma silent_no_destroy: "acl_silent ev \<Longrightarrow> (case ev of AclDestroyEvent h \<Rightarrow> P h | _ \<Rightarrow> True)"
  by (cases ev) auto

lemma quiet_events:
  assumes "quiet t t'"
  shows "acl_alive t' = acl_alive t" "destroys_alive {} t' = destroys_alive {} t"
proof -
  have "acl_alive (t @ es) = acl_alive t \<and> destroys_alive {} (t @ es) = destroys_alive {} t"
    if "list_all acl_silent es" for es
    using that
  proof (induction es rule: rev_induct)
    case (snoc ev es)
    then have ev: "acl_silent ev" by simp
    have "acl_alive ((t @ es) @ [ev]) = acl_alive (t @ es)"
      by (simp only: acl_alive_simps silent_alive [OF ev])
    moreover have "destroys_alive {} ((t @ es) @ [ev]) = destroys_alive {} (t @ es)"
      unfolding destroys_alive_snoc using silent_no_destroy [OF ev] by blast
    ultimately show ?case using snoc by simp
  qed simp
  with assms show "acl_alive t' = acl_alive t" "destroys_alive {} t' = destroys_alive {} t"
    by (auto simp: quiet_def)
qed

lemma dump_side_refl [simp]: "dump_side_same a a"
  by (simp add: dump_side_same_def)

lemma dump_side_trans: "dump_side_same a b \<Longrightarrow> dump_side_same b c \<Longrightarrow> dump_side_same a c"
  unfolding dump_side_same_def by (metis quiet_trans)

lemma mark_load_context_missing_frame [frame_simps]:
  "open_dumps (mark_load_context_missing ctx m) = open_dumps m"
proof -
  have "enabled (mark_load_context_missing ctx m) = enabled m \<and>
      dump_task_contexts (mark_load_context_missing ctx m) = dump_task_contexts m"
    unfolding mark_load_context_missing_def
  proof (induction ctx arbitrary: m)
    case (Cons a ctx)
    show ?case using Cons.IH by (cases a) simp
  qed simp
  then show ?thesis by (simp add: open_dumps_def)
qed

lemma load_contexts_frame [frame_simps]: "open_dumps (m\<lparr>load_task_contexts := x\<rparr>) = open_dumps m"
  by (simp add: open_dumps_def)

lemma submit_load_frame:
  "submit_load W store ctx ids shards ptrs d m t = (r, m', t') \<Longrightarrow> open_dumps m' = open_dumps m \<and> quiet t t'"
  by (auto simp: submit_load_def store_load_data_def Let_def frame_simps split: sum.splits if_splits)

lemma wait_load_frame:
  "wait_load W tk None m t = (r, m', t') \<Longrightarrow> open_dumps m' = open_dumps m \<and> quiet t t'"
  by (auto simp: wait_load_def store_wait_def Let_def frame_simps split: sum.splits if_splits option.splits)

lemma check_load_frame:
  "check_load W tk m t = (r, m', t') \<Longrightarrow> open_dumps m' = open_dumps m \<and> quiet t t'"
  by (auto simp: check_load_def store_check_def Let_def frame_simps split: sum.splits if_splits option.splits)

lemma record_load_error_frame:
  "record_load_error name ids wk t = (wk', t') \<Longrightarrow> dump_side_same (wk, t) (wk', t')"
  by (auto simp: record_load_error_def dump_side_same_def update_stats_def Let_def)

lemma mark_failed_frame [simp]:
  "dump_side_same a (mark_failed q wk, t) = dump_side_same a (wk, t)"
  "dump_side_same a (finish_async_load q wk, t) = dump_side_same a (wk, t)"
  by (simp_all add: mark_failed_def finish_async_load_def dump_side_same_def)

lemma submit_request_load_frame:
  assumes "submit_request_load W K q us vs wk t = (r, wk', t')"
  shows "dump_side_same (wk, t) (wk', t')"
  using assms submit_load_frame
  by (auto simp: submit_request_load_def dump_side_same_def split: sum.splits prod.splits)

text \<open>The outcomes of starting one load.\<close>

lemma load_request_cases:
  assumes "load_request W K (q, request) (ll, wk, t) = (ll', wk', t')"
  obtains (nothing) "fst (dm_load_block_ids request) = []" "ll' = ll" "wk' = wk" "t' = t"
    | (null) "wc_skip_null_vllm_blocks K" "ll_request_to_task ll' = ll_request_to_task ll" "t' = t"
      "wk' = (if dm_load_async request then finish_async_load q wk else wk)"
    | (duplicate) "dm_load_async request" "q \<in> fst ` set (wk_pending_load_tasks wk)"
      "ll_request_to_task ll' = ll_request_to_task ll" "wk' = wk" "t' = t"
    | (started) us vs tk wk1 where
      "(us, vs) = (if wc_skip_null_vllm_blocks K then drop_null_vllm_blocks (dm_load_block_ids request)
                   else dm_load_block_ids request)"
      "submit_request_load W K q us vs wk t = (Inr tk, wk1, t')"
      "if dm_load_async request
       then ll_request_to_task ll' = ll_request_to_task ll \<and>
            wk' = wk1\<lparr>wk_pending_load_tasks := AList.update q
              \<lparr> pl_task = tk, pl_request_id = q, pl_vllm_block_ids = vs \<rparr> (wk_pending_load_tasks wk1)\<rparr>
       else ll_request_to_task ll' = AList.update q tk (ll_request_to_task ll) \<and> wk' = wk1"
    | (failed) us vs e wk1 t1 wk2 where
      "submit_request_load W K q us vs wk t = (Inl e, wk1, t1)"
      "record_load_error ''connector_load_submit_errors_total''
         (snd (dm_load_block_ids request) @ snd (dm_dump_block_ids request)) wk1 t1 = (wk2, t')"
      "ll_request_to_task ll' = ll_request_to_task ll"
      "wk' = (if dm_load_async request then finish_async_load q (mark_failed q wk2) else mark_failed q wk2)"
proof -
  obtain us vs where sel: "(us, vs) = (if wc_skip_null_vllm_blocks K then drop_null_vllm_blocks (dm_load_block_ids request)
      else dm_load_block_ids request)" by (metis surj_pair)
  obtain r wk1 t1 where sub: "submit_request_load W K q us vs wk t = (r, wk1, t1)" by (metis prod_cases3)
  obtain wk2 t2 where err: "record_load_error ''connector_load_submit_errors_total''
    (snd (dm_load_block_ids request) @ snd (dm_dump_block_ids request)) wk1 t1 = (wk2, t2)" by (metis surj_pair)
  note run = assms [unfolded load_request_def Let_def prod.case sel [symmetric] sub err]
  consider "fst (dm_load_block_ids request) = []"
    | "fst (dm_load_block_ids request) \<noteq> []" "us = []"
    | "fst (dm_load_block_ids request) \<noteq> []" "us \<noteq> []" "dm_load_async request" "q \<in> fst ` set (wk_pending_load_tasks wk)"
    | "fst (dm_load_block_ids request) \<noteq> []" "us \<noteq> []" "\<not> (dm_load_async request \<and> q \<in> fst ` set (wk_pending_load_tasks wk))"
    by blast
  then show ?thesis
  proof cases
    case 1
    show ?thesis by (rule nothing) (use run 1 in auto)
  next
    case 2
    have "wc_skip_null_vllm_blocks K" using 2 sel by (metis fst_conv)
    then show ?thesis by (rule null) (use run 2 in \<open>auto split: if_splits\<close>)
  next
    case 3
    show ?thesis by (rule duplicate) (use run 3 in auto)
  next
    case 4
    show ?thesis
    proof (cases r)
      case (Inl e)
      show ?thesis
      proof (rule failed)
        show "submit_request_load W K q us vs wk t = (Inl e, wk1, t1)" using sub Inl by simp
        show "record_load_error ''connector_load_submit_errors_total''
          (snd (dm_load_block_ids request) @ snd (dm_dump_block_ids request)) wk1 t1 = (wk2, t')"
          using err run 4 Inl by (simp split: if_splits)
        show "ll_request_to_task ll' = ll_request_to_task ll" using run 4 Inl by (auto split: if_splits)
        show "wk' = (if dm_load_async request then finish_async_load q (mark_failed q wk2) else mark_failed q wk2)"
          using run 4 Inl by (auto split: if_splits)
      qed
    next
      case (Inr tk)
      show ?thesis
      proof (rule started [OF sel])
        show "submit_request_load W K q us vs wk t = (Inr tk, wk1, t')"
          using sub run 4 Inr by (auto split: if_splits)
        show "if dm_load_async request
          then ll_request_to_task ll' = ll_request_to_task ll \<and>
            wk' = wk1\<lparr>wk_pending_load_tasks := AList.update q
              \<lparr> pl_task = tk, pl_request_id = q, pl_vllm_block_ids = vs \<rparr> (wk_pending_load_tasks wk1)\<rparr>
          else ll_request_to_task ll' = AList.update q tk (ll_request_to_task ll) \<and> wk' = wk1"
          using run 4 Inr by (auto split: if_splits)
      qed
    qed
  qed
qed

lemma dump_side_pending_loads [simp]:
  "dump_side_same a (wk\<lparr>wk_pending_load_tasks := x\<rparr>, t) = dump_side_same a (wk, t)"
  by (simp add: dump_side_same_def)

lemma load_request_frame:
  assumes "load_request W K (q, request) (ll, wk, t) = (ll', wk', t')"
  shows "dump_side_same (wk, t) (wk', t')"
  using assms
proof (cases rule: load_request_cases)
  case (started us vs tk wk1)
  from submit_request_load_frame [OF started(2)] started(3) show ?thesis
    by (cases "dm_load_async request") simp_all
next
  case (failed us vs e wk1 t1 wk2)
  from dump_side_trans [OF submit_request_load_frame [OF failed(1)] record_load_error_frame [OF failed(2)]] failed(4)
  show ?thesis by (cases "dm_load_async request") simp_all
qed simp_all

lemma load_fold_frame:
  "fold (load_request W K) plans (ll, wk, t) = (ll', wk', t') \<Longrightarrow> dump_side_same (wk, t) (wk', t')"
proof (induction plans arbitrary: ll wk t)
  case (Cons p plans)
  obtain q request where p: "p = (q, request)" by (cases p)
  obtain ll1 wk1 t1 where l: "load_request W K p (ll, wk, t) = (ll1, wk1, t1)" by (metis prod_cases3)
  have "dump_side_same (wk1, t1) (wk', t')" using Cons.prems l by (intro Cons.IH) simp
  with load_request_frame [OF l [unfolded p]] show ?case by (rule dump_side_trans)
qed simp

lemma dump_side_manager:
  "open_dumps m = open_dumps (wk_rank_consistency wk) \<Longrightarrow> quiet t t' \<Longrightarrow>
   dump_side_same (wk, t) (wk\<lparr>wk_rank_consistency := m\<rparr>, t')"
  by (simp add: dump_side_same_def)

lemma wait_loads_frame:
  "wait_loads W plans tasks (ll, wk, t) = (ll', wk', t') \<Longrightarrow> dump_side_same (wk, t) (wk', t')"
proof (induction tasks arbitrary: ll wk t)
  case (Cons a rest)
  obtain q tk where a: "a = (q, tk)" by (cases a)
  obtain r m t1 where w: "wait_load W tk None (wk_rank_consistency wk) t = (r, m, t1)" by (metis prod_cases3)
  from wait_load_frame [OF w] have f: "dump_side_same (wk, t) (wk\<lparr>wk_rank_consistency := m\<rparr>, t1)"
    by (intro dump_side_manager) auto
  show ?case
  proof (cases "(\<exists>u. r = Inr u) \<or> map_of plans q = None")
    case True
    then have "wait_loads W plans rest (ll, wk\<lparr>wk_rank_consistency := m\<rparr>, t1) = (ll', wk', t')"
      using Cons.prems a w by (auto split: sum.splits)
    from dump_side_trans [OF f Cons.IH [OF this]] show ?thesis .
  next
    case False
    then obtain e request where r: "r = Inl e" "map_of plans q = Some request" by (cases r) auto
    obtain wk2 t2 where e: "record_load_error ''connector_load_wait_errors_total''
      (snd (dm_load_block_ids request) @ snd (dm_dump_block_ids request)) (wk\<lparr>wk_rank_consistency := m\<rparr>) t1 = (wk2, t2)"
      by (metis surj_pair)
    have "dump_side_same (mark_failed q wk2, t2) (wk', t')"
      by (rule Cons.IH) (use Cons.prems a w r e in simp)
    moreover have "dump_side_same (wk, t) (mark_failed q wk2, t2)"
      using dump_side_trans [OF f record_load_error_frame [OF e]] by simp
    ultimately show ?thesis by (rule dump_side_trans [rotated])
  qed
qed simp

lemma dump_side_stats: "dump_side_same (wk, t) (wk, update_stats stats t)"
  by (simp add: dump_side_same_def update_stats_def)

lemma start_load_frame:
  assumes "start_load_kv W K metadata wk t = (wk', t')"
  shows "dump_side_same (wk, t) (wk', t')"
proof -
  let ?ll = "\<lparr> ll_request_to_task = [], ll_request_to_load_blocks = [], ll_is_load = False, ll_num_loaded_block = 0 \<rparr>"
  obtain ll1 wk1 t1 where 1: "fold (load_request W K) (cm_request_meta metadata) (?ll, wk, t) = (ll1, wk1, t1)"
    by (metis prod_cases3)
  obtain ll2 wk2 t2 where 2: "wait_loads W (cm_request_meta metadata) (ll_request_to_task ll1) (ll1, wk1, t1) = (ll2, wk2, t2)"
    by (metis prod_cases3)
  have "dump_side_same (wk2, t2) (wk', t')"
    using assms 1 2 by (simp add: start_load_kv_def Let_def dump_side_stats split: if_splits)
       (metis dump_side_stats)
  with dump_side_trans [OF load_fold_frame [OF 1] wait_loads_frame [OF 2]] show ?thesis by (rule dump_side_trans)
qed

lemma reports_grow_refl [simp]: "reports_grow a a"
  by (simp add: reports_grow_def)

lemma reports_grow_trans: "reports_grow a b \<Longrightarrow> reports_grow b c \<Longrightarrow> reports_grow a c"
  unfolding reports_grow_def by (metis append_assoc order_trans)

lemma reported_kept: "load_reported q request wk \<Longrightarrow> reports_grow (wk, t) (wk', t') \<Longrightarrow> load_reported q request wk'"
  unfolding load_reported_def reports_grow_def by auto

lemma since_mono:
  assumes "reports_grow (wk, t) (wk1, t1)" "reports_grow (wk1, t1) (wk2, t2)"
  shows "events_since t t1 \<subseteq> events_since t t2" "events_since t1 t2 \<subseteq> events_since t t2"
  using assms by (auto simp: reports_grow_def events_since_def)

lemma accepted_mono: "load_accepted K request tk E \<Longrightarrow> E \<subseteq> F \<Longrightarrow> load_accepted K request tk F"
  by (auto simp: load_accepted_def)

lemma waited_mono: "load_waited tk E \<Longrightarrow> E \<subseteq> F \<Longrightarrow> load_waited tk F"
  by (auto simp: load_waited_def)

lemma wait_load_outcome:
  assumes "wait_load W tk None m t = (r, m', t')"
  shows "reports_grow (wk, t) (wk\<lparr>wk_rank_consistency := m'\<rparr>, t')"
    and "r = Inr u \<Longrightarrow> load_waited tk (events_since t t')"
  using assms by (auto simp: wait_load_def store_wait_def reports_grow_def load_waited_def events_since_def Let_def
        split: sum.splits prod.splits option.splits)

lemma check_load_outcome:
  assumes "check_load W tk m t = (r, m', t')"
  shows "reports_grow (wk, t) (wk\<lparr>wk_rank_consistency := m'\<rparr>, t')"
    and "r = Inr False \<Longrightarrow> load_running tk (events_since t t')"
  using assms by (auto simp: check_load_def store_check_def reports_grow_def load_running_def events_since_def Let_def
        split: sum.splits prod.splits option.splits)

lemma error_blocks:
  assumes "record_load_error name ids wk t = (wk', t')"
  shows "reports_grow (wk, t) (mark_failed q wk', t') \<and>
    q \<in> wm_load_failed_reqs (wk_connector_worker_meta (mark_failed q wk')) \<and>
    set ids \<subseteq> wk_invalid_block_ids (mark_failed q wk')"
  using assms by (auto simp: record_load_error_def mark_failed_def meta_mark_failed_def reports_grow_def
      update_stats_def Let_def)

lemma error_reports:
  assumes "record_load_error name (snd (dm_load_block_ids request) @ snd (dm_dump_block_ids request)) wk t = (wk', t')"
  shows "reports_grow (wk, t) (mark_failed q wk', t') \<and> load_reported q request (mark_failed q wk')"
  using error_blocks [OF assms] by (simp add: load_reported_def)

text \<open>
  One turn of the load poll either keeps the task, which the store said is running, or completes
  it, transferred or reported as failed. It touches nothing of the dump side.
\<close>

lemma poll_load_step:
  obtains (running) wk1 t1 where
      "poll_load_loop W ((q, pl) # rest) (finished, wk, t) = poll_load_loop W rest (finished, wk1, t1)"
      "dump_side_same (wk, t) (wk1, t1)" "reports_grow (wk, t) (wk1, t1)"
      "wk_pending_load_tasks wk1 = wk_pending_load_tasks wk"
      "wk_finished_async_load_req_ids wk1 = wk_finished_async_load_req_ids wk"
      "load_running (pl_task pl) (events_since t t1)"
  | (completed) wk1 t1 where
      "poll_load_loop W ((q, pl) # rest) (finished, wk, t) =
         poll_load_loop W rest (insert q finished,
           wk1\<lparr>wk_pending_load_tasks := AList.delete q (wk_pending_load_tasks wk)\<rparr>, t1)"
      "dump_side_same (wk, t) (wk1, t1)" "reports_grow (wk, t) (wk1, t1)"
      "wk_finished_async_load_req_ids wk1 = wk_finished_async_load_req_ids wk"
      "load_waited (pl_task pl) (events_since t t1) \<or> load_failed q pl wk1"
proof -
  obtain r m t1 where c: "check_load W (pl_task pl) (wk_rank_consistency wk) t = (r, m, t1)" by (rule prod_cases3)
  from check_load_frame [OF c] have f: "dump_side_same (wk, t) (wk\<lparr>wk_rank_consistency := m\<rparr>, t1)"
    by (intro dump_side_manager) simp_all
  note g = check_load_outcome(1) [OF c, of wk]
  obtain r2 m2 t2 where w: "wait_load W (pl_task pl) None m t1 = (r2, m2, t2)" by (rule prod_cases3)
  have f2: "dump_side_same (wk, t) (wk\<lparr>wk_rank_consistency := m2\<rparr>, t2)"
    using wait_load_frame [OF w] check_load_frame [OF c] by (intro dump_side_manager) (simp, metis quiet_trans)
  have g12: "reports_grow (wk\<lparr>wk_rank_consistency := m\<rparr>, t1) (wk\<lparr>wk_rank_consistency := m2\<rparr>, t2)"
    using wait_load_outcome(1) [OF w, of "wk\<lparr>wk_rank_consistency := m\<rparr>"] by simp
  note g2 = reports_grow_trans [OF g g12]
  have failed: thesis
    if "dump_side_same (wk, t) (wk\<lparr>wk_rank_consistency := m0\<rparr>, t0)"
      "reports_grow (wk, t) (wk\<lparr>wk_rank_consistency := m0\<rparr>, t0)"
      "poll_load_loop W ((q, pl) # rest) (finished, wk, t) =
        (case record_load_error ''connector_load_wait_errors_total'' (pl_vllm_block_ids pl)
           (wk\<lparr>wk_rank_consistency := m0\<rparr>) t0 of
         (wk, t) \<Rightarrow> poll_load_loop W rest (insert q finished,
           (mark_failed q wk)\<lparr>wk_pending_load_tasks := AList.delete q (wk_pending_load_tasks (mark_failed q wk))\<rparr>, t))"
    for m0 t0
  proof -
    obtain wk3 t3 where e: "record_load_error ''connector_load_wait_errors_total'' (pl_vllm_block_ids pl)
      (wk\<lparr>wk_rank_consistency := m0\<rparr>) t0 = (wk3, t3)" by (rule prod.exhaust)
    then have p: "wk_pending_load_tasks (mark_failed q wk3) = wk_pending_load_tasks wk"
      "wk_finished_async_load_req_ids (mark_failed q wk3) = wk_finished_async_load_req_ids wk"
      by (auto simp: record_load_error_def mark_failed_def Let_def)
    note err = error_blocks [OF e, of q]
    show thesis
    proof (rule completed [of "mark_failed q wk3" t3])
      show "dump_side_same (wk, t) (mark_failed q wk3, t3)"
        using dump_side_trans [OF that(1) record_load_error_frame [OF e]] by simp
      show "reports_grow (wk, t) (mark_failed q wk3, t3)" using reports_grow_trans [OF that(2)] err by blast
      show "load_waited (pl_task pl) (events_since t t3) \<or> load_failed q pl (mark_failed q wk3)"
        using err by (simp add: load_failed_def)
    qed (use that(3) e p in simp_all)
  qed
  show thesis
  proof (cases r)
    case (Inl e)
    with c f g show ?thesis by (intro failed [of m t1]) (simp_all add: Let_def split_beta)
  next
    case (Inr b)
    show ?thesis
    proof (cases b)
      case True
      show ?thesis
      proof (cases r2)
        case (Inl e)
        with c Inr True w f2 g2 show ?thesis by (intro failed [of m2 t2]) (simp_all add: Let_def split_beta)
      next
        case (Inr u)
        from waited_mono [OF wait_load_outcome(2) [OF w this] since_mono(2) [OF g g12]]
        have "load_waited (pl_task pl) (events_since t t2)" .
        with c \<open>r = Inr b\<close> True Inr w f2 g2 show ?thesis
          by (intro completed [of "wk\<lparr>wk_rank_consistency := m2\<rparr>" t2]) (simp_all add: Let_def)
      qed
    next
      case False
      with c Inr f g check_load_outcome(2) [OF c] show ?thesis
        by (intro running [of "wk\<lparr>wk_rank_consistency := m\<rparr>" t1]) (simp_all add: Let_def)
    qed
  qed
qed

lemma poll_load_frame:
  "poll_load_loop W pending (finished, wk, t) = (finished', wk', t') \<Longrightarrow> dump_side_same (wk, t) (wk', t')"
proof (induction pending arbitrary: finished wk t)
  case (Cons a rest)
  obtain q pl where a: "a = (q, pl)" by (cases a)
  show ?case
  proof (cases rule: poll_load_step [of W q pl rest finished wk t])
    case (running wk1 t1)
    from Cons.prems a running(1) have "poll_load_loop W rest (finished, wk1, t1) = (finished', wk', t')" by simp
    from dump_side_trans [OF running(2) Cons.IH [OF this]] show ?thesis .
  next
    case (completed wk1 t1)
    let ?wk = "wk1\<lparr>wk_pending_load_tasks := AList.delete q (wk_pending_load_tasks wk)\<rparr>"
    from Cons.prems a completed(1) have "poll_load_loop W rest (insert q finished, ?wk, t1) = (finished', wk', t')" by simp
    from Cons.IH [OF this] have "dump_side_same (?wk, t1) (wk', t')" .
    moreover have "dump_side_same (wk, t) (?wk, t1)" using completed(2) by simp
    ultimately show ?thesis by (rule dump_side_trans [rotated])
  qed
qed simp

section \<open>The worker keeps the ledger in its book\<close>

lemma release_frame:
  "release_dump_event_handle K h wk t = (wk', t') \<Longrightarrow>
     wk_rank_consistency wk' = wk_rank_consistency wk \<and> wk_pending_dump_tasks wk' = wk_pending_dump_tasks wk \<and>
     wk_async_dump_req_ids wk' = wk_async_dump_req_ids wk"
  by (auto simp: release_dump_event_handle_def split: if_splits prod.splits)

lemma get_dump_event_frame:
  "get_dump_event_handle W K wk t = (r, wk', t') \<Longrightarrow>
     wk_rank_consistency wk' = wk_rank_consistency wk \<and> wk_pending_dump_tasks wk' = wk_pending_dump_tasks wk \<and>
     wk_async_dump_req_ids wk' = wk_async_dump_req_ids wk"
  by (auto simp: get_dump_event_handle_def Let_def split: if_splits prod.splits sum.splits)

lemma wait_pending_books:
  assumes "wait_pending_dump_task W K pd wk t = (r, wk', t')"
    and "open_dumps (wk_rank_consistency wk) \<subseteq> insert (pd_task pd, pd_request_ids pd) S"
  shows "open_dumps (wk_rank_consistency wk') \<subseteq> S \<and> wk_pending_dump_tasks wk' = wk_pending_dump_tasks wk \<and>
    wk_async_dump_req_ids wk' = wk_async_dump_req_ids wk"
proof -
  obtain s t1 where p: "perf_counter_ms W t = (s, t1)" by (metis surj_pair)
  obtain r1 m t2 where w: "wait_dump W (pd_task pd) (wk_rank_consistency wk) t1 = (r1, m, t2)" by (metis prod_cases3)
  from manager_ledger.book_wait [OF assms(2) w] have "open_dumps m \<subseteq> S" .
  moreover obtain t3 where "release_dump_event_handle K (pd_event_handle pd) (wk\<lparr>wk_rank_consistency := m\<rparr>) t3 = (wk', t')"
    using assms(1) p w by (auto simp: wait_pending_dump_task_def Let_def split: prod.splits)
  ultimately show ?thesis using release_frame by fastforce
qed

lemma poll_books:
  assumes "poll_loop W K pds wk t = (remaining, wk', t')"
    and "open_dumps (wk_rank_consistency wk) \<subseteq> booked (pre @ pds)"
  shows "open_dumps (wk_rank_consistency wk') \<subseteq> booked (pre @ remaining) \<and>
    wk_async_dump_req_ids wk' = wk_async_dump_req_ids wk"
  using assms
proof (induction pds arbitrary: wk t pre remaining wk' t')
  case (Cons pd pds)
  obtain r t1 where c: "store_check W (wc_store K) (pd_task pd) t = (r, t1)" by (metis surj_pair)
  show ?case
  proof (cases "r = Inr True")
    case True
    obtain r2 wk2 t2 where w: "wait_pending_dump_task W K pd wk t1 = (r2, wk2, t2)" by (metis prod_cases3)
    have "open_dumps (wk_rank_consistency wk) \<subseteq> insert (pd_task pd, pd_request_ids pd) (booked (pre @ pds))"
      using Cons.prems(2) by (auto simp: booked_def)
    from wait_pending_books [OF w this] Cons.IH [of wk2 t2 remaining wk' t' pre] Cons.prems(1) c True w
    show ?thesis by simp
  next
    case False
    obtain rem wk2 t2 where l: "poll_loop W K pds wk t1 = (rem, wk2, t2)" by (metis prod_cases3)
    have "(remaining, wk', t') = (pd # rem, wk2, t2)"
      using Cons.prems(1) c False l by (auto split: sum.splits bool.splits)
    with Cons.IH [OF l, of "pre @ [pd]"] Cons.prems(2) show ?thesis by simp
  qed
qed simp

lemma wait_loop_books:
  assumes "wait_loop W K selected pds wk t = (remaining, wk', t')"
    and "open_dumps (wk_rank_consistency wk) \<subseteq> booked (pre @ pds)"
  shows "remaining = filter (\<lambda>pd. \<not> selected pd) pds \<and>
    open_dumps (wk_rank_consistency wk') \<subseteq> booked (pre @ remaining) \<and>
    wk_async_dump_req_ids wk' = wk_async_dump_req_ids wk"
  using assms
proof (induction pds arbitrary: wk t pre remaining wk' t')
  case (Cons pd pds)
  show ?case
  proof (cases "selected pd")
    case True
    obtain r2 wk2 t2 where w: "wait_pending_dump_task W K pd wk t = (r2, wk2, t2)" by (metis prod_cases3)
    have "open_dumps (wk_rank_consistency wk) \<subseteq> insert (pd_task pd, pd_request_ids pd) (booked (pre @ pds))"
      using Cons.prems(2) by (auto simp: booked_def)
    note books = wait_pending_books [OF w this]
    have "wait_loop W K selected pds wk2 t2 = (remaining, wk', t')" using Cons.prems(1) True w by simp
    from Cons.IH [OF this, of pre] books True show ?thesis by auto
  next
    case False
    obtain rem wk2 t2 where l: "wait_loop W K selected pds wk t = (rem, wk2, t2)" by (metis prod_cases3)
    with Cons.prems(1) False have "(remaining, wk', t') = (pd # rem, wk2, t2)" by simp
    with Cons.IH [OF l, of "pre @ [pd]"] Cons.prems(2) False show ?thesis by auto
  qed
qed simp

lemma books_frame: "dump_side_same (wk, t) (wk', t') \<Longrightarrow> books_ok wk' = books_ok wk"
  by (simp add: books_ok_def dump_side_same_def)

lemma poll_keeps_books:
  "poll_pending_dump_tasks W K wk t = (wk', t') \<Longrightarrow> books_ok wk \<Longrightarrow> books_ok wk'"
  using poll_books [of W K "wk_pending_dump_tasks wk" wk t _ _ _ "[]"]
  by (fastforce simp: poll_pending_dump_tasks_def books_ok_def split: prod.splits)

lemma submit_step_cases:
  assumes "submit_step_dump W K dumps wk t = (r, wk', t')"
  obtains (unaddressed) e where "r = Inl e" "wk' = wk" "t' = t"
  | (unsynchronised) e where "r = Inl e" "get_dump_event_handle W K wk t = (Inl e, wk', t')"
  | (submitted) handle wk1 t1 ids shards ptrs tk m where "r = Inr (tk, handle)"
      "get_dump_event_handle W K wk t = (Inr handle, wk1, t1)"
      "submit_dump W (wc_store K) (map (\<lambda>(req_id, u, _). (req_id, set u)) dumps) ids shards ptrs handle
         (wk_rank_consistency wk1) t1 = (Inr tk, m, t')"
      "wk' = wk1\<lparr>wk_rank_consistency := m\<rparr>"
  | (rejected) e handle wk1 t1 ids shards ptrs m t2 where "r = Inl e"
      "get_dump_event_handle W K wk t = (Inr handle, wk1, t1)"
      "submit_dump W (wc_store K) (map (\<lambda>(req_id, u, _). (req_id, set u)) dumps) ids shards ptrs handle
         (wk_rank_consistency wk1) t1 = (Inl e, m, t2)"
      "release_dump_event_handle K handle (wk1\<lparr>wk_rank_consistency := m\<rparr>) t2 = (wk', t')"
proof -
  let ?v = "concat (map (\<lambda>(_, _, v). v) dumps)" and ?u = "concat (map (\<lambda>(_, u, _). rank_block_ids K u) dumps)"
  note run = assms [unfolded submit_step_dump_def Let_def]
  show thesis
  proof (cases "block_ptrs K ?v")
    case (Inl e)
    with run show ?thesis by (intro unaddressed [of e]) auto
  next
    case (Inr ptrs)
    obtain h wk1 t1 where h: "get_dump_event_handle W K wk t = (h, wk1, t1)" by (metis prod_cases3)
    show ?thesis
    proof (cases h)
      case (Inl e)
      with run \<open>block_ptrs K ?v = Inr ptrs\<close> h show ?thesis by (intro unsynchronised [of e]) auto
    next
      case (Inr handle)
      obtain r2 m t2 where d: "submit_dump W (wc_store K) (map (\<lambda>(req_id, u, _). (req_id, set u)) dumps) ?u
        (replicate (length ?u) 0) ptrs handle (wk_rank_consistency wk1) t1 = (r2, m, t2)" by (metis prod_cases3)
      note run = run [simplified \<open>block_ptrs K ?v = Inr ptrs\<close> h Inr d sum.case prod.case]
      show ?thesis
      proof (cases r2)
        case (Inl e)
        with run h \<open>h = Inr handle\<close> d show ?thesis
          by (intro rejected [of e handle wk1 t1 _ _ _ m t2]) (auto split: prod.splits)
      next
        case (Inr tk)
        with run h \<open>h = Inr handle\<close> d show ?thesis
          by (intro submitted [of tk handle wk1 t1 _ _ _ m]) (auto split: prod.splits)
      qed
    qed
  qed
qed

lemma step_context_ids: "fst ` set (map (\<lambda>(req_id, u, _). (req_id, set u)) dumps) = fst ` set dumps"
  by force

lemma submit_step_books:
  assumes "submit_step_dump W K dumps wk t = (r, wk', t')"
    and "open_dumps (wk_rank_consistency wk) \<subseteq> S"
  shows "wk_pending_dump_tasks wk' = wk_pending_dump_tasks wk \<and>
    wk_async_dump_req_ids wk' = wk_async_dump_req_ids wk \<and>
    open_dumps (wk_rank_consistency wk') \<subseteq>
      (case r of Inl e \<Rightarrow> S | Inr (tk, handle) \<Rightarrow> insert (tk, fst ` set dumps) S)"
  using assms(1)
proof (cases rule: submit_step_cases)
  case unaddressed
  with assms(2) show ?thesis by simp
next
  case unsynchronised
  with assms(2) get_dump_event_frame show ?thesis by fastforce
next
  case (submitted handle wk1 t1 ids shards ptrs tk m)
  note frame = get_dump_event_frame [OF submitted(2)]
  with assms(2) have "open_dumps (wk_rank_consistency wk1) \<subseteq> S" by simp
  from manager_ledger.book_submit [OF this submitted(3)] frame submitted(1,4)
  show ?thesis by (simp add: step_context_ids del: set_map)
next
  case (rejected e handle wk1 t1 ids shards ptrs m t2)
  note frame = get_dump_event_frame [OF rejected(2)] release_frame [OF rejected(4)]
  with manager_ledger.rejected [OF rejected(3)] assms(2) rejected(1) show ?thesis by simp
qed

lemma save_keeps_books:
  assumes "wait_for_save W K metadata wk t = (wk', t')" "books_ok wk"
  shows "books_ok wk'"
proof -
  obtain start t0 where p: "perf_counter_ms W t = (start, t0)" by (metis surj_pair)
  obtain wk1 t1 where 1: "poll_pending_dump_tasks W K wk t0 = (wk1, t1)" by (metis surj_pair)
  from poll_keeps_books [OF 1 assms(2)] have b: "books_ok wk1" .
  let ?wk = "wk1\<lparr>wk_async_dump_req_ids := wk_async_dump_req_ids wk1 \<union>
    {req_id. \<exists>request. (req_id, request) \<in> set (cm_request_meta metadata) \<and> fst (dm_dump_block_ids request) \<noteq> []}\<rparr>"
  let ?dumps = "rank_dumps K (cm_request_meta metadata)"
  obtain r wk2 t2 where 2: "submit_step_dump W K ?dumps ?wk t1 = (r, wk2, t2)" by (rule prod_cases3)
  have S: "open_dumps (wk_rank_consistency ?wk) \<subseteq> booked (wk_pending_dump_tasks wk1)" using b by (simp add: books_ok_def)
  note books = submit_step_books [OF 2 S]
  let ?booked = "\<lambda>tk handle. wk2\<lparr>wk_pending_dump_tasks := wk_pending_dump_tasks wk2 @
    [\<lparr> pd_task = tk, pd_request_ids = fst ` set ?dumps, pd_event_handle = handle, pd_wait_for_save_start_ms = start \<rparr>]\<rparr>"
  have run: "wk' = (if ?dumps = [] then ?wk else case r of Inl e \<Rightarrow> wk2 | Inr (tk, handle) \<Rightarrow> ?booked tk handle)"
    using assms(1) unfolding wait_for_save_def p 1 Let_def prod.case 2
    by (cases "?dumps = []"; cases r) (simp_all split: prod.splits)
  show ?thesis
  proof (cases "?dumps = []")
    case True
    with run b show ?thesis by (simp add: books_ok_def)
  next
    case False
    show ?thesis
    proof (cases r)
      case (Inl e)
      with run b False books show ?thesis by (simp add: books_ok_def)
    next
      case (Inr x)
      obtain tk handle where x: "x = (tk, handle)" by (cases x)
      with Inr books b have "open_dumps (wk_rank_consistency wk2) \<subseteq>
        insert (tk, fst ` set ?dumps) (booked (wk_pending_dump_tasks wk2))" by (simp add: books_ok_def)
      moreover have "open_dumps (wk_rank_consistency wk') = open_dumps (wk_rank_consistency wk2) \<and>
        booked (wk_pending_dump_tasks wk') = insert (tk, fst ` set ?dumps) (booked (wk_pending_dump_tasks wk2))"
        using run False Inr x by (simp add: booked_def)
      ultimately show ?thesis by (simp add: books_ok_def)
    qed
  qed
qed

lemma preempt_keeps_books:
  assumes "handle_preemptions W K ids wk t = (wk', t')" "books_ok wk"
  shows "books_ok wk'"
proof (cases "ids = {}")
  case False
  obtain rem wk1 t1 where l: "wait_loop W K (\<lambda>pd. pd_request_ids pd \<inter> ids \<noteq> {}) (wk_pending_dump_tasks wk)
    (wk\<lparr>wk_pending_dump_tasks := []\<rparr>) t = (rem, wk1, t1)" by (metis prod_cases3)
  from wait_loop_books [OF l, of "[]"] assms(2) have "open_dumps (wk_rank_consistency wk1) \<subseteq> booked rem"
    unfolding books_ok_def by auto
  moreover have "wk' = wk1\<lparr>wk_pending_dump_tasks := rem\<rparr>"
    using assms(1) False l by (simp add: handle_preemptions_def flush_pending_dump_tasks_def)
  ultimately show ?thesis by (simp add: books_ok_def)
qed (use assms in \<open>simp add: handle_preemptions_def\<close>)

text \<open>
  With its book in order a worker can always answer: what it waits for covers every dump of the
  finished requests, so the manager has nothing left to complain about.
\<close>

lemma finished_books:
  assumes "get_finished W K F wk t = (r, wk', t')" "books_ok wk"
  obtains recving where "r = Inr (F \<inter> wk_async_dump_req_ids wk, recving)" "books_ok wk'"
    "wk_async_dump_req_ids wk' = wk_async_dump_req_ids wk - F"
    "\<forall>pd \<in> set (wk_pending_dump_tasks wk'). pd_request_ids pd \<inter> (F \<inter> wk_async_dump_req_ids wk) = {}"
proof -
  obtain recving wk1 t1 where 1: "poll_pending_load_tasks W wk t = (recving, wk1, t1)" by (metis prod_cases3)
  from poll_load_frame [OF this [unfolded poll_pending_load_tasks_def]]
  have f: "dump_side_same (wk, t) (wk1, t1)" by (simp add: dump_side_same_def)
  let ?A = "F \<inter> wk_async_dump_req_ids wk"
  have A: "wk_async_dump_req_ids wk1 = wk_async_dump_req_ids wk" using f by (simp add: dump_side_same_def)
  have b1: "open_dumps (wk_rank_consistency wk1) \<subseteq> booked ([] @ wk_pending_dump_tasks wk1)"
    using books_frame [OF f] assms(2) by (simp add: books_ok_def)
  obtain rem wkl tl where l: "wait_loop W K (\<lambda>pd. pd_request_ids pd \<inter> ?A \<noteq> {}) (wk_pending_dump_tasks wk1) wk1 t1 = (rem, wkl, tl)"
    by (metis prod_cases3)
  note lb = wait_loop_books [OF l b1]
  define wk2 where "wk2 = (if ?A = {} then wk1 else wkl\<lparr>wk_pending_dump_tasks := rem\<rparr>)"
  define t2 where "t2 = (if ?A = {} then t1 else tl)"
  have b2: "open_dumps (wk_rank_consistency wk2) \<subseteq> booked (wk_pending_dump_tasks wk2)"
    "wk_async_dump_req_ids wk2 = wk_async_dump_req_ids wk"
    "\<forall>pd \<in> set (wk_pending_dump_tasks wk2). pd_request_ids pd \<inter> ?A = {}"
    using lb b1 A by (auto simp: wk2_def)
  then have "\<forall>p \<in> booked (wk_pending_dump_tasks wk2). snd p \<inter> ?A = {}" by (auto simp: booked_def)
  from manager_ledger.book_finish [OF b2(1) this] obtain m where
    m: "finish_dump ?A (wk_rank_consistency wk2) = (Inr (), m)" "open_dumps m \<subseteq> booked (wk_pending_dump_tasks wk2)" by blast
  have "get_finished W K F wk t = (Inr (?A, recving), wk2\<lparr>wk_rank_consistency := m,
      wk_async_dump_req_ids := wk_async_dump_req_ids wk2 - ?A\<rparr>, t2)"
  proof (cases "?A = {}")
    case True
    then show ?thesis using m(1) unfolding get_finished_def 1 prod.case A Let_def wk2_def t2_def by simp
  next
    case False
    then show ?thesis using m(1) lb A unfolding get_finished_def 1 prod.case A l Let_def wk2_def t2_def by simp
  qed
  with assms(1) have "r = Inr (?A, recving)" "wk' = wk2\<lparr>wk_rank_consistency := m,
      wk_async_dump_req_ids := wk_async_dump_req_ids wk2 - ?A\<rparr>" by simp_all
  with b2 m(2) show thesis by (intro that [of recving]) (auto simp: books_ok_def)
qed

lemma report_keeps_books:
  assumes "build_connector_worker_meta wk = (wm, wk')" "books_ok wk"
  shows "books_ok wk'"
proof -
  obtain w m where u: "update_worker_meta (wk_connector_worker_meta wk) (wk_rank_consistency wk) = (w, m)" by (metis surj_pair)
  then have "m = snd (update_worker_meta (wk_connector_worker_meta wk) (wk_rank_consistency wk))" by simp
  then have "open_dumps m = open_dumps (wk_rank_consistency wk)" by (simp add: open_dumps_def update_worker_meta_def)
  with assms u show ?thesis
    by (auto simp: books_ok_def build_connector_worker_meta_def Let_def split: if_splits)
qed

lemma worker_books: "worker_reach kind W K wk t \<Longrightarrow> books_ok wk"
proof (induction rule: worker_reach.induct)
  case (worker_init is_mla use)
  show ?case by (simp add: books_ok_def init_worker_def open_dumps_def init_manager_def)
next
  case (worker_load wk t metadata wk' t')
  then show ?case using books_frame [OF start_load_frame] by blast
next
  case (worker_finished wk t F r wk' t')
  then show ?case by (blast elim: finished_books)
next
  case (worker_errors wk t S wk')
  then show ?case by (auto simp: books_ok_def get_block_ids_with_load_errors_def)
next
  case (worker_report wk t wm wk')
  then show ?case using report_keeps_books by blast
next
  case (worker_save wk t metadata wk' t')
  then show ?case using save_keeps_books by blast
next
  case (worker_preempt wk t ids wk' t')
  then show ?case using preempt_keeps_books by blast
qed

section \<open>Every NPU event has one holder\<close>

lemma events_quiet: "quiet t t' \<Longrightarrow> events_ok pds d t' = events_ok pds d t"
  by (simp add: events_ok_def quiet_events)

lemma submit_dump_quiet:
  "submit_dump W store ctx ids shards ptrs handle m t = (r, m', t') \<Longrightarrow> quiet t t'"
  by (auto simp: submit_dump_def store_dump_data_def Let_def split: sum.splits prod.splits)

lemma wait_dump_quiet: "wait_dump W tk m t = (r, m', t') \<Longrightarrow> quiet t t'"
  by (auto simp: wait_dump_def store_wait_def Let_def split: sum.splits prod.splits option.splits)

lemma held_handles_simps [simp]:
  "held_handles [] = []"
  "held_handles (a @ b) = held_handles a @ held_handles b"
  "held_handles (pd # pds) = (if pd_event_handle pd = 0 then [] else [pd_event_handle pd]) @ held_handles pds"
  by (simp_all add: held_handles_def)

lemma npu_take_fresh:
  assumes "acl_as_documented W" "dev_kind d = NpuDevice" "get_event_handle W d t = (h, d', t')"
  shows "(h = 0 \<and> d' = d) \<or>
    (w_acl_create W t = Inr (h, 0) \<and> h \<notin> acl_alive t \<and> d' = d\<lparr>dev_events := insert h (dev_events d)\<rparr>)"
proof -
  from assms(2,3) have "(h = 0 \<and> d' = d) \<or>
    (w_acl_create W t = Inr (h, 0) \<and> d' = d\<lparr>dev_events := insert h (dev_events d)\<rparr>)"
    by (auto simp: get_event_handle_def npu_get_event_handle_def Let_def split: sum.splits prod.splits if_splits)
  with assms(1) show ?thesis unfolding acl_as_documented_def by blast
qed

lemma release_returns_event:
  assumes "release_dump_event_handle K h wk t = (wk', t')"
    and "events_ok (pre @ pd # pds) (wk_device wk) t" "pd_event_handle pd = h"
    and "wc_enable_event_sync K \<or> h = 0"
  shows "events_ok (pre @ pds) (wk_device wk') t'"
proof (cases "h = 0")
  case True
  then have "wk' = wk" "t' = t" using assms(1) by (simp_all add: release_dump_event_handle_def)
  moreover have "held_handles (pre @ pd # pds) = held_handles (pre @ pds)" using True assms(3) by simp
  ultimately show ?thesis using assms(2) by (simp only: events_ok_def)
next
  case False
  let ?d = "wk_device wk"
  let ?A = "held_handles pre" and ?B = "held_handles pds"
  have ok: "dev_kind ?d = NpuDevice" "dev_events ?d = acl_alive t" "destroys_alive {} t"
    "distinct (?A @ h # ?B)" "set (?A @ h # ?B) = dev_events ?d"
    using assms(2,3) False by (simp_all add: events_ok_def)
  from ok(5) have held: "h \<in> dev_events ?d" by force
  have out: "wk_device wk' = ?d\<lparr>dev_events := dev_events ?d - {h}\<rparr>" "t' = t @ [AclDestroyEvent h]"
    using assms(1,4) False ok(1) held by (auto simp: release_dump_event_handle_def destroy_event_handle_def)
  have "set (?A @ ?B) = dev_events ?d - {h}"
    unfolding ok(5) [symmetric] using ok(4) by auto
  moreover have "distinct (?A @ ?B)" using ok(4) by simp
  moreover have "destroys_alive {} (t @ [AclDestroyEvent h])"
    using ok(2,3) held by (simp only: destroys_alive_snoc) simp
  ultimately show ?thesis unfolding out events_ok_def using ok(1,2) by simp
qed

lemma wait_pending_events:
  assumes "wait_pending_dump_task W K pd wk t = (r, wk', t')"
    and "events_ok (pre @ pd # pds) (wk_device wk) t"
    and "wc_enable_event_sync K \<or> held_handles (pre @ pd # pds) = []"
  shows "events_ok (pre @ pds) (wk_device wk') t'"
proof -
  obtain s t1 where p: "perf_counter_ms W t = (s, t1)" by (metis surj_pair)
  obtain r1 m t2 where w: "wait_dump W (pd_task pd) (wk_rank_consistency wk) t1 = (r1, m, t2)" by (metis prod_cases3)
  define t3 where "t3 = (case r1 of Inl _ \<Rightarrow> t2 | Inr _ \<Rightarrow> (case perf_counter_ms W t2 of (wait_end_ms, t) \<Rightarrow>
      update_stats ((if pd_wait_for_save_start_ms pd > 0
        then [(''save_duration'', non_negative_ms (wait_end_ms - pd_wait_for_save_start_ms pd))] else []) @
        [(''save_completion_wait_duration'', non_negative_ms (wait_end_ms - s))]) t))"
  have run: "release_dump_event_handle K (pd_event_handle pd) (wk\<lparr>wk_rank_consistency := m\<rparr>) t3 = (wk', t')"
    using assms(1) unfolding wait_pending_dump_task_def p w prod.case Let_def t3_def [symmetric]
    by (simp split: prod.splits)
  have "quiet t t1" using p by (auto simp: perf_counter_ms_def)
  moreover have "quiet t2 t3"
    by (auto simp: t3_def perf_counter_ms_def update_stats_def quiet_def split: sum.splits)
  ultimately have "quiet t t3" using wait_dump_quiet [OF w] quiet_trans by blast
  with assms(2) have e: "events_ok (pre @ pd # pds) (wk_device (wk\<lparr>wk_rank_consistency := m\<rparr>)) t3"
    by (simp add: events_quiet)
  have "wc_enable_event_sync K \<or> pd_event_handle pd = 0" using assms(3) by (auto split: if_splits)
  with release_returns_event [OF run e refl] show ?thesis .
qed

lemma poll_events:
  assumes "poll_loop W K pds wk t = (remaining, wk', t')"
    and "events_ok (pre @ pds) (wk_device wk) t"
    and "wc_enable_event_sync K \<or> held_handles (pre @ pds) = []"
  shows "events_ok (pre @ remaining) (wk_device wk') t' \<and>
    (wc_enable_event_sync K \<or> held_handles (pre @ remaining) = [])"
  using assms
proof (induction pds arbitrary: wk t pre remaining wk' t')
  case (Cons pd pds)
  obtain r t1 where c: "store_check W (wc_store K) (pd_task pd) t = (r, t1)" by (metis surj_pair)
  then have "quiet t t1" by (auto simp: store_check_def Let_def)
  with Cons.prems(2) have e: "events_ok (pre @ pd # pds) (wk_device wk) t1" by (simp only: events_quiet)
  show ?case
  proof (cases "r = Inr True")
    case True
    obtain r2 wk2 t2 where w: "wait_pending_dump_task W K pd wk t1 = (r2, wk2, t2)" by (metis prod_cases3)
    have rest: "wc_enable_event_sync K \<or> held_handles (pre @ pds) = []" using Cons.prems(3) by auto
    have "poll_loop W K pds wk2 t2 = (remaining, wk', t')" using Cons.prems(1) c True w by simp
    from Cons.IH [OF this wait_pending_events [OF w e Cons.prems(3)] rest] show ?thesis .
  next
    case False
    obtain rem wk2 t2 where l: "poll_loop W K pds wk t1 = (rem, wk2, t2)" by (metis prod_cases3)
    have "(remaining, wk', t') = (pd # rem, wk2, t2)"
      using Cons.prems(1) c False l by (auto split: sum.splits bool.splits)
    with Cons.IH [OF l, of "pre @ [pd]"] e Cons.prems(3) show ?thesis by (simp del: held_handles_simps)
  qed
qed simp

lemma wait_loop_events:
  assumes "wait_loop W K selected pds wk t = (remaining, wk', t')"
    and "events_ok (pre @ pds) (wk_device wk) t"
    and "wc_enable_event_sync K \<or> held_handles (pre @ pds) = []"
  shows "events_ok (pre @ remaining) (wk_device wk') t' \<and>
    (wc_enable_event_sync K \<or> held_handles (pre @ remaining) = [])"
  using assms
proof (induction pds arbitrary: wk t pre remaining wk' t')
  case (Cons pd pds)
  show ?case
  proof (cases "selected pd")
    case True
    obtain r2 wk2 t2 where w: "wait_pending_dump_task W K pd wk t = (r2, wk2, t2)" by (metis prod_cases3)
    have rest: "wc_enable_event_sync K \<or> held_handles (pre @ pds) = []" using Cons.prems(3) by auto
    have "wait_loop W K selected pds wk2 t2 = (remaining, wk', t')" using Cons.prems(1) True w by simp
    from Cons.IH [OF this wait_pending_events [OF w Cons.prems(2,3)] rest] show ?thesis .
  next
    case False
    obtain rem wk2 t2 where l: "wait_loop W K selected pds wk t = (rem, wk2, t2)" by (metis prod_cases3)
    have "(remaining, wk', t') = (pd # rem, wk2, t2)" using Cons.prems(1) False l by simp
    with Cons.IH [OF l, of "pre @ [pd]"] Cons.prems(2,3) show ?thesis by (simp del: held_handles_simps)
  qed
qed simp

text \<open>Events are held by pending dumps only, and by none when events are not used.\<close>

lemma take_adds_event:
  assumes "get_dump_event_handle W K wk t = (r, wk', t')" "acl_as_documented W"
    and "\<forall>t event. w_acl_create W t = Inr (event, 0) \<longrightarrow> event \<noteq> 0"
    and "events_ok pds (wk_device wk) t" "wc_enable_event_sync K \<or> held_handles pds = []"
  shows "case r of
      Inl e \<Rightarrow> events_ok pds (wk_device wk') t'
    | Inr h \<Rightarrow> (\<forall>pd. pd_event_handle pd = h \<longrightarrow> events_ok (pds @ [pd]) (wk_device wk') t') \<and>
        (wc_enable_event_sync K \<or> h = 0)"
proof -
  have sync: "quiet t (snd (synchronize W t))" for t by (simp add: synchronize_def Let_def)
  have zero: "events_ok (pds @ [pd]) d t = events_ok pds d t" if "pd_event_handle pd = 0" for pd d t
    using that by (simp add: events_ok_def)
  show ?thesis
  proof (cases "wc_enable_event_sync K")
    case False
    with assms(1,4) show ?thesis using events_quiet [OF sync, of pds _ t]
      by (auto simp: get_dump_event_handle_def zero split: sum.splits prod.splits)
  next
    case True
    obtain h d t1 where h: "get_event_handle W (wk_device wk) t = (h, d, t1)" by (metis prod_cases3)
    have ok: "dev_kind (wk_device wk) = NpuDevice" "dev_events (wk_device wk) = acl_alive t" "destroys_alive {} t"
      "distinct (held_handles pds)" "set (held_handles pds) = dev_events (wk_device wk)"
      using assms(4) by (simp_all add: events_ok_def)
    from npu_take_ledger [OF assms(2) ok(1-3)] h
    have led: "dev_kind d = NpuDevice" "dev_events d = acl_alive t1" "destroys_alive {} t1" by simp_all
    note fresh = npu_take_fresh [OF assms(2) ok(1) h]
    show ?thesis
    proof (cases "h = 0")
      case True
      with fresh assms(3) have "d = wk_device wk" by blast
      with led ok have e: "events_ok pds d t1" by (simp add: events_ok_def)
      with True h assms(1) \<open>wc_enable_event_sync K\<close> events_quiet [OF sync, of pds d t1]
      show ?thesis by (auto simp: get_dump_event_handle_def Let_def zero split: sum.splits prod.splits)
    next
      case False
      with fresh ok have "h \<notin> set (held_handles pds)" "dev_events d = insert h (set (held_handles pds))" by auto
      with led ok(4) False have e: "events_ok (pds @ [pd]) d t1" if "pd_event_handle pd = h" for pd
        using that by (simp add: events_ok_def)
      have "r = Inr h" "wk_device wk' = d" "t' = t1"
        using h assms(1) False \<open>wc_enable_event_sync K\<close> by (auto simp: get_dump_event_handle_def Let_def)
      with e \<open>wc_enable_event_sync K\<close> show ?thesis by simp
    qed
  qed
qed

lemma events_frame:
  assumes "dump_side_same (wk, t) (wk', t')" "events_kept K (wk_pending_dump_tasks wk) wk t"
  shows "events_kept K (wk_pending_dump_tasks wk') wk' t'"
proof -
  from assms(1) have "quiet t t'" "wk_device wk' = wk_device wk" "wk_pending_dump_tasks wk' = wk_pending_dump_tasks wk"
    by (simp_all add: dump_side_same_def)
  with assms(2) show ?thesis by (simp add: events_kept_def events_quiet)
qed

lemma submit_step_events:
  assumes "submit_step_dump W K dumps wk t = (r, wk', t')" "acl_as_documented W"
    and "\<forall>t event. w_acl_create W t = Inr (event, 0) \<longrightarrow> event \<noteq> 0"
    and "events_kept K pds wk t"
  shows "case r of
      Inl e \<Rightarrow> events_kept K pds wk' t'
    | Inr (tk, h) \<Rightarrow> (\<forall>pd. pd_event_handle pd = h \<longrightarrow> events_kept K (pds @ [pd]) wk' t')"
proof -
  from assms(4) have ok: "events_ok pds (wk_device wk) t" "wc_enable_event_sync K \<or> held_handles pds = []"
    by (simp_all add: events_kept_def)
  note take = take_adds_event [OF _ assms(2,3) ok]
  show ?thesis using assms(1)
  proof (cases rule: submit_step_cases)
    case (unaddressed e)
    with assms(4) show ?thesis by simp
  next
    case (unsynchronised e)
    with take [OF unsynchronised(2)] ok(2) show ?thesis by (simp add: events_kept_def)
  next
    case (submitted handle wk1 t1 ids shards ptrs tk m)
    from take [OF submitted(2)] submitted ok(2) show ?thesis
      by (auto simp: events_kept_def events_quiet [OF submit_dump_quiet [OF submitted(3)]])
  next
    case (rejected e handle wk1 t1 ids shards ptrs m t2)
    let ?pd = "\<lparr> pd_task = 0, pd_request_ids = {}, pd_event_handle = handle, pd_wait_for_save_start_ms = 0 \<rparr>"
    from take [OF rejected(2)] have "events_ok (pds @ [?pd]) (wk_device wk1) t1" "wc_enable_event_sync K \<or> handle = 0" by simp_all
    then have "events_ok (pds @ ?pd # []) (wk_device (wk1\<lparr>wk_rank_consistency := m\<rparr>)) t2"
      by (simp add: events_quiet [OF submit_dump_quiet [OF rejected(3)]])
    from release_returns_event [OF rejected(4) this] \<open>wc_enable_event_sync K \<or> handle = 0\<close>
    have "events_ok pds (wk_device wk') t'" by simp
    with rejected(1) ok(2) show ?thesis by (simp add: events_kept_def)
  qed
qed

lemma save_keeps_events:
  assumes "wait_for_save W K metadata wk t = (wk', t')" "acl_as_documented W"
    and "\<forall>t event. w_acl_create W t = Inr (event, 0) \<longrightarrow> event \<noteq> 0"
    and "events_kept K (wk_pending_dump_tasks wk) wk t"
  shows "events_kept K (wk_pending_dump_tasks wk') wk' t'"
proof -
  obtain start t0 where p: "perf_counter_ms W t = (start, t0)" by (metis surj_pair)
  then have "quiet t t0" by (auto simp: perf_counter_ms_def)
  with assms(4) have k0: "events_ok ([] @ wk_pending_dump_tasks wk) (wk_device wk) t0"
    "wc_enable_event_sync K \<or> held_handles ([] @ wk_pending_dump_tasks wk) = []"
    by (simp_all add: events_kept_def events_quiet)
  obtain rem wk0 t1 where 1: "poll_loop W K (wk_pending_dump_tasks wk) wk t0 = (rem, wk0, t1)" by (metis prod_cases3)
  define wk1 where "wk1 = wk0\<lparr>wk_pending_dump_tasks := rem\<rparr>"
  have 2: "poll_pending_dump_tasks W K wk t0 = (wk1, t1)" by (simp add: poll_pending_dump_tasks_def 1 wk1_def)
  have k1: "events_kept K rem wk1 t1" using poll_events [OF 1 k0] by (simp add: events_kept_def wk1_def)
  let ?wk = "wk1\<lparr>wk_async_dump_req_ids := wk_async_dump_req_ids wk1 \<union>
    {req_id. \<exists>request. (req_id, request) \<in> set (cm_request_meta metadata) \<and> fst (dm_dump_block_ids request) \<noteq> []}\<rparr>"
  let ?dumps = "rank_dumps K (cm_request_meta metadata)"
  obtain r wk2 t2 where 3: "submit_step_dump W K ?dumps ?wk t1 = (r, wk2, t2)" by (rule prod_cases3)
  have k2: "events_kept K rem ?wk t1" using k1 by (simp add: events_kept_def)
  note step = submit_step_events [OF 3 assms(2,3) k2]
  have same: "wk_pending_dump_tasks wk2 = rem" using submit_step_books [OF 3 order_refl] by (simp add: wk1_def)
  note run = assms(1) [unfolded wait_for_save_def p 2 Let_def prod.case 3]
  show ?thesis
  proof (cases "?dumps = []")
    case True
    then have "wk' = ?wk" "t' = t1" using run by simp_all
    with k2 show ?thesis by (simp add: wk1_def)
  next
    case False
    show ?thesis
    proof (cases r)
      case (Inl e)
      then have "wk' = wk2" "t' = t2" using run False by simp_all
      with Inl step same show ?thesis by simp
    next
      case (Inr x)
      obtain tk h where x: "x = (tk, h)" by (cases x)
      let ?pd = "\<lparr> pd_task = tk, pd_request_ids = fst ` set ?dumps, pd_event_handle = h, pd_wait_for_save_start_ms = start \<rparr>"
      have "wk' = wk2\<lparr>wk_pending_dump_tasks := rem @ [?pd]\<rparr>" "quiet t2 t'"
        using run False Inr x same by (auto simp: update_stats_def)
      moreover have "events_kept K (rem @ [?pd]) wk2 t2" using step Inr x by simp
      ultimately show ?thesis by (simp add: events_kept_def events_quiet)
    qed
  qed
qed

lemma preempt_keeps_events:
  assumes "handle_preemptions W K ids wk t = (wk', t')" "events_kept K (wk_pending_dump_tasks wk) wk t"
  shows "events_kept K (wk_pending_dump_tasks wk') wk' t'"
proof (cases "ids = {}")
  case False
  obtain rem wk1 t1 where l: "wait_loop W K (\<lambda>pd. pd_request_ids pd \<inter> ids \<noteq> {}) (wk_pending_dump_tasks wk)
    (wk\<lparr>wk_pending_dump_tasks := []\<rparr>) t = (rem, wk1, t1)" by (rule prod_cases3)
  have "wk' = wk1\<lparr>wk_pending_dump_tasks := rem\<rparr>" "t' = t1"
    using assms(1) False l by (simp_all add: handle_preemptions_def flush_pending_dump_tasks_def)
  moreover have "events_kept K rem wk1 t1"
    using wait_loop_events [OF l, of "[]"] assms(2) by (simp add: events_kept_def)
  ultimately show ?thesis by (simp add: events_kept_def)
qed (use assms in \<open>simp add: handle_preemptions_def\<close>)

lemma finished_keeps_events:
  assumes "get_finished W K F wk t = (r, wk', t')" "events_kept K (wk_pending_dump_tasks wk) wk t"
  shows "events_kept K (wk_pending_dump_tasks wk') wk' t'"
proof -
  obtain recving wk1 t1 where 1: "poll_pending_load_tasks W wk t = (recving, wk1, t1)" by (rule prod_cases3)
  from poll_load_frame [OF this [unfolded poll_pending_load_tasks_def]]
  have "dump_side_same (wk, t) (wk1, t1)" by (simp add: dump_side_same_def)
  from events_frame [OF this assms(2)] have k1: "events_kept K (wk_pending_dump_tasks wk1) wk1 t1" .
  let ?A = "F \<inter> wk_async_dump_req_ids wk1"
  obtain rem wkl tl where l: "wait_loop W K (\<lambda>pd. pd_request_ids pd \<inter> ?A \<noteq> {}) (wk_pending_dump_tasks wk1) wk1 t1 = (rem, wkl, tl)"
    by (rule prod_cases3)
  have "events_kept K rem wkl tl" using wait_loop_events [OF l, of "[]"] k1 by (simp add: events_kept_def)
  define wk2 where "wk2 = (if ?A = {} then wk1 else wkl\<lparr>wk_pending_dump_tasks := rem\<rparr>)"
  define t2 where "t2 = (if ?A = {} then t1 else tl)"
  have k2: "events_kept K (wk_pending_dump_tasks wk2) wk2 t2"
    using k1 \<open>events_kept K rem wkl tl\<close> by (simp add: wk2_def t2_def events_kept_def)
  have "t' = t2 \<and> wk_device wk' = wk_device wk2 \<and> wk_pending_dump_tasks wk' = wk_pending_dump_tasks wk2"
    using assms(1) unfolding get_finished_def 1 prod.case Let_def l wk2_def t2_def
    by (auto split: if_splits prod.splits sum.splits)
  with k2 show ?thesis by (simp add: events_kept_def)
qed

lemma worker_events:
  assumes "worker_reach NpuDevice W K wk t" "acl_as_documented W"
    and "\<forall>t event. w_acl_create W t = Inr (event, 0) \<longrightarrow> event \<noteq> 0"
  shows "events_kept K (wk_pending_dump_tasks wk) wk t"
  using assms(1)
proof (induction rule: worker_reach.induct)
  case (worker_init is_mla use)
  show ?case by (simp add: events_kept_def events_ok_def init_worker_def init_device_def)
next
  case (worker_load wk t metadata wk' t')
  then show ?case using events_frame [OF start_load_frame] by blast
next
  case (worker_save wk t metadata wk' t')
  then show ?case using save_keeps_events [OF _ assms(2,3)] by blast
next
  case (worker_preempt wk t ids wk' t')
  then show ?case using preempt_keeps_events by blast
next
  case (worker_finished wk t F r wk' t')
  then show ?case using finished_keeps_events by blast
next
  case (worker_errors wk t S wk')
  then show ?case by (auto simp: events_kept_def get_block_ids_with_load_errors_def)
next
  case (worker_report wk t wm wk')
  then show ?case by (auto simp: events_kept_def build_connector_worker_meta_def Let_def split: if_splits prod.splits)
next
  case (worker_others wk t es)
  then have "quiet t (t @ es)" by (auto simp: quiet_def)
  with worker_others show ?case by (simp add: events_kept_def events_quiet)
qed

section \<open>What became of the loads\<close>

lemma submit_request_grows:
  assumes "submit_request_load W K q us vs wk t = (r, wk', t')"
  shows "reports_grow (wk, t) (wk', t')"
  using assms by (auto simp: submit_request_load_def submit_load_def store_load_data_def reports_grow_def Let_def
      split: sum.splits prod.splits)

lemma submit_request_accepted:
  assumes "submit_request_load W K q (fst (dm_load_block_ids request)) vs wk t = (Inr tk, wk', t')"
  shows "load_accepted K request tk (events_since t t')"
  using assms by (auto simp: submit_request_load_def submit_load_def store_load_data_def load_accepted_def
      events_since_def Let_def split: sum.splits prod.splits)

lemma load_request_outcome:
  assumes "load_request W K (q, request) (ll, wk, t) = (ll', wk', t')"
  shows "reports_grow (wk, t) (wk', t') \<and>
    (\<forall>p. p \<noteq> q \<longrightarrow> map_of (ll_request_to_task ll') p = map_of (ll_request_to_task ll) p) \<and>
    (\<not> wc_skip_null_vllm_blocks K \<longrightarrow> \<not> dm_load_async request \<longrightarrow> fst (dm_load_block_ids request) \<noteq> [] \<longrightarrow>
      (\<exists>tk. map_of (ll_request_to_task ll') q = Some tk \<and> load_accepted K request tk (events_since t t')) \<or>
      load_reported q request wk')"
  using assms
proof (cases rule: load_request_cases)
  case (started us vs tk wk1)
  have "reports_grow (wk, t) (wk', t')"
    using submit_request_grows [OF started(2)] started(3) by (auto simp: reports_grow_def split: if_splits)
  moreover have "load_accepted K request tk (events_since t t')" if "\<not> wc_skip_null_vllm_blocks K"
  proof -
    from that started(1) have "us = fst (dm_load_block_ids request)" by (metis fst_conv)
    with submit_request_accepted started(2) show ?thesis by blast
  qed
  ultimately show ?thesis using started(3) by (auto split: if_splits)
next
  case (failed us vs e wk1 t1 wk2)
  note err = error_reports [OF failed(2), of q]
  from reports_grow_trans [OF submit_request_grows [OF failed(1)] conjunct1 [OF err]] failed(4)
  have "reports_grow (wk, t) (wk', t')" by (simp add: reports_grow_def finish_async_load_def)
  with err failed(3,4) show ?thesis by simp
qed (auto simp: finish_async_load_def reports_grow_def)

lemma load_fold_outcome:
  assumes "fold (load_request W K) plans (ll, wk, t) = (ll', wk', t')" "distinct (map fst plans)"
    and "\<not> wc_skip_null_vllm_blocks K"
  shows "reports_grow (wk, t) (wk', t') \<and>
    (\<forall>q. q \<notin> fst ` set plans \<longrightarrow> map_of (ll_request_to_task ll') q = map_of (ll_request_to_task ll) q) \<and>
    (\<forall>(q, request) \<in> set plans. \<not> dm_load_async request \<longrightarrow> fst (dm_load_block_ids request) \<noteq> [] \<longrightarrow>
      (\<exists>tk. map_of (ll_request_to_task ll') q = Some tk \<and> load_accepted K request tk (events_since t t')) \<or>
      load_reported q request wk')"
  using assms(1,2)
proof (induction plans arbitrary: ll wk t)
  case (Cons a plans)
  obtain q request where a: "a = (q, request)" by (cases a)
  obtain ll1 wk1 t1 where l: "load_request W K (q, request) (ll, wk, t) = (ll1, wk1, t1)" by (rule prod_cases3)
  have rest: "fold (load_request W K) plans (ll1, wk1, t1) = (ll', wk', t')" "distinct (map fst plans)"
    using Cons.prems a l by simp_all
  have out: "reports_grow (wk, t) (wk1, t1)"
    "\<And>p. p \<noteq> q \<Longrightarrow> map_of (ll_request_to_task ll1) p = map_of (ll_request_to_task ll) p"
    using load_request_outcome [OF l] by blast+
  note IH = Cons.IH [OF rest]
  then have grow: "reports_grow (wk1, t1) (wk', t')" by blast
  note since = since_mono [OF out(1) grow]
  have q: "q \<notin> fst ` set plans" using Cons.prems(2) a by simp
  show ?case
  proof (intro conjI allI impI)
    show "reports_grow (wk, t) (wk', t')" using out(1) grow by (rule reports_grow_trans)
    show "map_of (ll_request_to_task ll') p = map_of (ll_request_to_task ll) p" if "p \<notin> fst ` set (a # plans)" for p
      using that out(2) [of p] IH a by auto
    show "\<forall>(q, request) \<in> set (a # plans). \<not> dm_load_async request \<longrightarrow> fst (dm_load_block_ids request) \<noteq> [] \<longrightarrow>
      (\<exists>tk. map_of (ll_request_to_task ll') q = Some tk \<and> load_accepted K request tk (events_since t t')) \<or>
      load_reported q request wk'"
    proof (intro ballI, clarify)
      fix p plan
      assume mem: "(p, plan) \<in> set (a # plans)" and sync: "\<not> dm_load_async plan" "fst (dm_load_block_ids plan) \<noteq> []"
        and no: "\<not> load_reported p plan wk'"
      show "\<exists>tk. map_of (ll_request_to_task ll') p = Some tk \<and> load_accepted K plan tk (events_since t t')"
      proof (cases "(p, plan) \<in> set plans")
        case True
        with IH sync no obtain tk where "map_of (ll_request_to_task ll') p = Some tk"
          "load_accepted K plan tk (events_since t1 t')" by blast
        with accepted_mono since(2) show ?thesis by blast
      next
        case False
        with mem a have p: "p = q" "plan = request" by simp_all
        have "\<not> load_reported q request wk1" using reported_kept [OF _ grow] no p by blast
        with load_request_outcome [OF l] assms(3) sync p obtain tk where "map_of (ll_request_to_task ll1) q = Some tk"
          "load_accepted K request tk (events_since t t1)" by blast
        with accepted_mono since(1) IH q p show ?thesis by metis
      qed
    qed
  qed
qed simp

lemma wait_loads_outcome:
  assumes "wait_loads W plans tasks (ll, wk, t) = (ll', wk', t')"
  shows "reports_grow (wk, t) (wk', t') \<and>
    (\<forall>(q, tk) \<in> set tasks. \<forall>request. map_of plans q = Some request \<longrightarrow>
      load_waited tk (events_since t t') \<or> load_reported q request wk')"
  using assms
proof (induction tasks arbitrary: ll wk t)
  case (Cons a rest)
  obtain q tk where a: "a = (q, tk)" by (cases a)
  obtain r m t1 where w: "wait_load W tk None (wk_rank_consistency wk) t = (r, m, t1)" by (rule prod_cases3)
  note g1 = wait_load_outcome(1) [OF w, of wk] and ok = wait_load_outcome(2) [OF w]
  have step: ?case
    if tail: "wait_loads W plans rest (ll2, wk2, t2) = (ll', wk', t')" and g: "reports_grow (wk, t) (wk2, t2)"
      and one: "\<And>request. map_of plans q = Some request \<Longrightarrow> load_waited tk (events_since t t2) \<or> load_reported q request wk2"
    for ll2 wk2 t2
  proof -
    note IH = Cons.IH [OF tail]
    then have g2: "reports_grow (wk2, t2) (wk', t')" by blast
    note since = since_mono [OF g g2]
    have "load_waited tk (events_since t t') \<or> load_reported q request wk'" if "map_of plans q = Some request" for request
      using one [OF that] waited_mono since(1) reported_kept [OF _ g2] by blast
    moreover have "load_waited tk' (events_since t t') \<or> load_reported q' request wk'"
      if "(q', tk') \<in> set rest" "map_of plans q' = Some request" for q' tk' request
      using IH that waited_mono since(2) by blast
    ultimately show ?thesis using reports_grow_trans [OF g g2] a by auto
  qed
  show ?case
  proof (cases r)
    case (Inr u)
    with Cons.prems a w g1 ok show ?thesis by (intro step [of ll "wk\<lparr>wk_rank_consistency := m\<rparr>" t1]) auto
  next
    case (Inl e)
    show ?thesis
    proof (cases "map_of plans q")
      case None
      with Inl Cons.prems a w g1 show ?thesis by (intro step [of ll "wk\<lparr>wk_rank_consistency := m\<rparr>" t1]) auto
    next
      case (Some request)
      obtain wk2 t2 where e: "record_load_error ''connector_load_wait_errors_total''
        (snd (dm_load_block_ids request) @ snd (dm_dump_block_ids request)) (wk\<lparr>wk_rank_consistency := m\<rparr>) t1 = (wk2, t2)"
        by (metis surj_pair)
      note err = error_reports [OF e, of q]
      show ?thesis
        by (rule step [of _ "mark_failed q wk2" t2])
          (use Inl Some Cons.prems a w e err reports_grow_trans [OF g1] in auto)
    qed
  qed
qed simp

section \<open>Striping the dump over the ranks\<close>

lemma stride_position:
  fixes r s tp :: int
  assumes "0 < tp"
  shows "nat ((r - s) mod tp) \<le> i \<and> (i - nat ((r - s) mod tp)) mod nat tp = 0 \<longleftrightarrow> (s + int i) mod tp = r mod tp"
proof -
  define k where "k = nat ((r - s) mod tp)"
  have k: "int k = (r - s) mod tp" "k < nat tp" using assms by (simp_all add: k_def nat_less_iff)
  have "k \<le> i \<and> (i - k) mod nat tp = 0 \<longleftrightarrow> i mod nat tp = k"
  proof
    assume h: "k \<le> i \<and> (i - k) mod nat tp = 0"
    then obtain c where "i - k = nat tp * c" by (auto elim: dvdE simp: mod_eq_0_iff_dvd)
    with h have "i = k + nat tp * c" by simp
    with k(2) show "i mod nat tp = k" by simp
  next
    assume "i mod nat tp = k"
    then show "k \<le> i \<and> (i - k) mod nat tp = 0" by (auto simp: minus_mod_eq_mult_div)
  qed
  also have "\<dots> \<longleftrightarrow> int (i mod nat tp) = int k" by linarith
  also have "\<dots> \<longleftrightarrow> int i mod tp = (r - s) mod tp"
    using assms k(1) by (simp add: of_nat_mod)
  also have "\<dots> \<longleftrightarrow> tp dvd (int i - (r - s))" by (rule mod_eq_dvd_iff)
  also have "int i - (r - s) = (s + int i) - r" by simp
  also have "tp dvd \<dots> \<longleftrightarrow> (s + int i) mod tp = r mod tp" by (rule mod_eq_dvd_iff [symmetric])
  finally show ?thesis by (simp add: k_def)
qed

lemma stride_index:
  assumes "0 < tp"
  shows "py_stride xs (nat ((r mod tp - s) mod tp)) (nat tp) =
    map (\<lambda>i. xs ! i) (filter (\<lambda>i. (s + int i) mod tp = r mod tp) [0..<length xs])"
proof -
  have "(r mod tp - s) mod tp = (r - s) mod tp" by (simp add: mod_diff_left_eq)
  then show ?thesis unfolding py_stride_def using stride_position [OF assms, of r s] by simp
qed

text \<open>Filtering a list by each value of a key and gathering what the parts hold gives the whole back.\<close>

lemma gather_by_key:
  fixes F :: "'a \<Rightarrow> 'b multiset"
  assumes "finite R" "\<forall>x \<in> set xs. key x \<in> R"
  shows "(\<Sum>r\<in>R. \<Sum>x\<leftarrow>filter (\<lambda>x. key x = r) xs. F x) = (\<Sum>x\<leftarrow>xs. F x)"
  using assms(2)
proof (induction xs)
  case (Cons x xs)
  have "(\<Sum>r\<in>R. \<Sum>y\<leftarrow>filter (\<lambda>y. key y = r) (x # xs). F y) =
    (\<Sum>r\<in>R. (if key x = r then F x else {#}) + (\<Sum>y\<leftarrow>filter (\<lambda>y. key y = r) xs. F y))"
    by (intro sum.cong) auto
  also have "\<dots> = F x + (\<Sum>y\<leftarrow>xs. F y)"
    using Cons assms(1) by (simp add: sum.distrib)
  finally show ?case by simp
qed simp

lemma mset_filter_map: "mset (filter P (map f xs)) = (\<Sum>x\<leftarrow>xs. if P (f x) then {#f x#} else {#})"
  by (induction xs) auto

lemma strides_gather:
  assumes "0 < tp"
  shows "(\<Sum>r\<in>{0..<tp}. mset (filter P (py_stride xs (nat ((r mod tp - s) mod tp)) (nat tp)))) = mset (filter P xs)"
proof -
  let ?F = "\<lambda>i. if P (xs ! i) then {#xs ! i#} else {#}"
  have "(\<Sum>r\<in>{0..<tp}. mset (filter P (py_stride xs (nat ((r mod tp - s) mod tp)) (nat tp)))) =
    (\<Sum>r\<in>{0..<tp}. \<Sum>i\<leftarrow>filter (\<lambda>i. (s + int i) mod tp = r) [0..<length xs]. ?F i)"
  proof (rule sum.cong)
    fix r assume "r \<in> {0..<tp}"
    then have "r mod tp = r" by simp
    then show "mset (filter P (py_stride xs (nat ((r mod tp - s) mod tp)) (nat tp))) =
      (\<Sum>i\<leftarrow>filter (\<lambda>i. (s + int i) mod tp = r) [0..<length xs]. ?F i)"
      unfolding stride_index [OF assms] mset_filter_map by simp
  qed simp
  also have "\<dots> = (\<Sum>i\<leftarrow>[0..<length xs]. ?F i)" using assms by (intro gather_by_key) auto
  also have "\<dots> = mset (filter P (map ((!) xs) [0..<length xs]))" unfolding mset_filter_map ..
  finally show ?thesis by (simp add: map_nth)
qed

lemma stride_append:
  assumes "0 < tp"
  shows "py_stride (xs @ ys) (nat ((r mod tp - s) mod tp)) (nat tp) =
    py_stride xs (nat ((r mod tp - s) mod tp)) (nat tp) @
    py_stride ys (nat ((r mod tp - (s + int (length xs))) mod tp)) (nat tp)"
proof -
  let ?n = "length xs"
  have "[0..<length (xs @ ys)] = [0..<?n] @ map (\<lambda>i. i + ?n) [0..<length ys]"
    using upt_add_eq_append [of 0 ?n "length ys"] by (simp add: map_add_upt add.commute)
  moreover have "map ((!) (xs @ ys)) (filter Q [0..<?n]) = map ((!) xs) (filter Q [0..<?n])" for Q
    by (rule map_cong) (auto simp: nth_append)
  moreover have "map ((!) (xs @ ys)) (filter (\<lambda>i. (s + int i) mod tp = r mod tp) (map (\<lambda>i. i + ?n) [0..<length ys])) =
    map ((!) ys) (filter (\<lambda>i. (s + int ?n + int i) mod tp = r mod tp) [0..<length ys])"
    unfolding filter_map map_map
  proof (rule map_cong)
    have "s + int (i + ?n) = s + int ?n + int i" for i by simp
    then show "filter ((\<lambda>i. (s + int i) mod tp = r mod tp) \<circ> (\<lambda>i. i + ?n)) [0..<length ys] =
      filter (\<lambda>i. (s + int ?n + int i) mod tp = r mod tp) [0..<length ys]" by (simp only: o_def)
  qed (simp add: nth_append)
  ultimately show ?thesis unfolding stride_index [OF assms] by (simp only: filter_append map_append)
qed

lemma drop_null_zip: "(case drop_null_vllm_blocks (u, v) of (a, b) \<Rightarrow> zip a b) = filter (\<lambda>(u, v). v \<noteq> 0) (zip u v)"
  by (cases "u = [] \<or> v = []") (auto simp: drop_null_vllm_blocks_def Let_def zip_map_fst_snd)

lemma failed_kept: "load_failed q pl wk \<Longrightarrow> reports_grow (wk, t) (wk', t') \<Longrightarrow> load_failed q pl wk'"
  unfolding load_failed_def reports_grow_def by auto

lemma running_mono: "load_running tk E \<Longrightarrow> E \<subseteq> F \<Longrightarrow> load_running tk F"
  by (auto simp: load_running_def)

lemma delete_filter: "AList.delete q d = filter (\<lambda>(k, _). k \<noteq> q) d"
  unfolding AList.delete_eq by (rule filter_cong) auto

lemma plans_cons:
  "a = (q, x) \<Longrightarrow> (\<And>p y. (p, y) \<in> set rest \<Longrightarrow> P p y) \<Longrightarrow> P q x \<Longrightarrow> \<forall>(p, y) \<in> set (a # rest). P p y"
  by auto

lemma poll_load_outcome:
  assumes "poll_load_loop W L (finished, wk, t) = (R, wk', t')" "distinct (map fst L)"
  shows "\<exists>C. C \<subseteq> fst ` set L \<and> R = finished \<union> C \<and>
    wk_pending_load_tasks wk' = filter (\<lambda>(q, _). q \<notin> C) (wk_pending_load_tasks wk) \<and>
    wk_finished_async_load_req_ids wk' = wk_finished_async_load_req_ids wk \<and>
    reports_grow (wk, t) (wk', t') \<and>
    (\<forall>(q, pl) \<in> set L. if q \<in> C then load_waited (pl_task pl) (events_since t t') \<or> load_failed q pl wk'
                     else load_running (pl_task pl) (events_since t t'))"
  using assms
proof (induction L arbitrary: finished wk t)
  case Nil
  then show ?case by (intro exI [of _ "{}"]) (auto simp: filter_True)
next
  case (Cons a rest)
  obtain q pl where a: "a = (q, pl)" by (cases a)
  have dist: "distinct (map fst rest)" "q \<notin> fst ` set rest" using Cons.prems(2) a by simp_all
  show ?case
  proof (cases rule: poll_load_step [of W q pl rest finished wk t])
    case (running wk1 t1)
    from Cons.prems a running(1) have "poll_load_loop W rest (finished, wk1, t1) = (R, wk', t')" by simp
    from Cons.IH [OF this dist(1)] obtain C where C: "C \<subseteq> fst ` set rest" "R = finished \<union> C"
      "wk_pending_load_tasks wk' = filter (\<lambda>(q, _). q \<notin> C) (wk_pending_load_tasks wk1)"
      "wk_finished_async_load_req_ids wk' = wk_finished_async_load_req_ids wk1" and g: "reports_grow (wk1, t1) (wk', t')"
      and each: "\<forall>(q, pl) \<in> set rest. if q \<in> C then load_waited (pl_task pl) (events_since t1 t') \<or> load_failed q pl wk'
                     else load_running (pl_task pl) (events_since t1 t')" by blast
    note since = since_mono [OF running(3) g]
    show ?thesis
    proof (intro exI [of _ C] conjI)
      show "\<forall>(q, pl) \<in> set (a # rest). if q \<in> C then load_waited (pl_task pl) (events_since t t') \<or> load_failed q pl wk'
                     else load_running (pl_task pl) (events_since t t')"
        (is "\<forall>(q, pl) \<in> set (a # rest). ?P q pl")
      proof -
        have "?P p x" if "(p, x) \<in> set rest" for p x
          using each that waited_mono [OF _ since(2)] running_mono [OF _ since(2)] by (auto split: if_splits)
        moreover have "?P q pl" using running_mono [OF running(6) since(1)] C(1) dist(2) by auto
        ultimately show ?thesis by (rule plans_cons [OF a])
      qed
    qed (use C running(4,5) reports_grow_trans [OF running(3) g] a in auto)
  next
    case (completed wk1 t1)
    let ?wk = "wk1\<lparr>wk_pending_load_tasks := AList.delete q (wk_pending_load_tasks wk)\<rparr>"
    have g0: "reports_grow (wk, t) (?wk, t1)" using completed(3) by (simp add: reports_grow_def)
    from Cons.prems a completed(1) have "poll_load_loop W rest (insert q finished, ?wk, t1) = (R, wk', t')" by simp
    from Cons.IH [OF this dist(1)] obtain C where C: "C \<subseteq> fst ` set rest" "R = insert q finished \<union> C"
      "wk_pending_load_tasks wk' = filter (\<lambda>(q, _). q \<notin> C) (AList.delete q (wk_pending_load_tasks wk))"
      "wk_finished_async_load_req_ids wk' = wk_finished_async_load_req_ids wk1" and g: "reports_grow (?wk, t1) (wk', t')"
      and each: "\<forall>(q, pl) \<in> set rest. if q \<in> C then load_waited (pl_task pl) (events_since t1 t') \<or> load_failed q pl wk'
                     else load_running (pl_task pl) (events_since t1 t')" by auto
    note since = since_mono [OF g0 g]
    have one: "load_waited (pl_task pl) (events_since t t') \<or> load_failed q pl wk'"
      using completed(5) waited_mono since(1) failed_kept [of q pl ?wk t1 wk' t'] g by (auto simp: load_failed_def)
    show ?thesis
    proof (intro exI [of _ "insert q C"] conjI)
      show "\<forall>(p, pl) \<in> set (a # rest). if p \<in> insert q C then load_waited (pl_task pl) (events_since t t') \<or> load_failed p pl wk'
                     else load_running (pl_task pl) (events_since t t')"
        (is "\<forall>(q, pl) \<in> set (a # rest). ?P q pl")
      proof -
        have "?P p x" if "(p, x) \<in> set rest" for p x
        proof -
          from that dist(2) have "p \<noteq> q" by force
          with each that waited_mono [OF _ since(2)] running_mono [OF _ since(2)] show ?thesis by (auto split: if_splits)
        qed
        moreover have "?P q pl" using one by simp
        ultimately show ?thesis by (rule plans_cons [OF a])
      qed
      show "wk_pending_load_tasks wk' = filter (\<lambda>(p, _). p \<notin> insert q C) (wk_pending_load_tasks wk)"
        unfolding C(3) delete_filter filter_filter by (rule filter_cong) auto
    qed (use C completed(4) reports_grow_trans [OF g0 g] a in auto)
  qed
qed

section \<open>Properties\<close>

lemma example_saved:
  "\<exists>wk t. worker_reach NpuDevice one_event_world example_worker_conf wk t \<and>
     wk_async_dump_req_ids wk = {''r''} \<and> length (wk_pending_dump_tasks wk) = 1"
proof -
  obtain wk t where run: "wait_for_save one_event_world example_worker_conf example_metadata
    (init_worker NpuDevice True True) [] = (wk, t)" by (rule prod.exhaust)
  have reach: "worker_reach NpuDevice one_event_world example_worker_conf wk t"
    by (rule worker_save [OF worker_init run])
  let ?wk = "(init_worker NpuDevice True True)\<lparr>wk_async_dump_req_ids := {''r''}\<rparr>"
  obtain r wk2 t2 where sub: "submit_step_dump one_event_world example_worker_conf [(''r'', [''c''], [3])] ?wk [PerfCounter] = (r, wk2, t2)"
    by (rule prod_cases3)
  have dumps: "rank_dumps example_worker_conf (cm_request_meta example_metadata) = [(''r'', [''c''], [3])]"
    by (simp add: rank_dumps_def example_metadata_def example_plan_def example_worker_conf_def
        get_rank_dump_blocks_def select_mla_dump_blocks_def get_mla_dump_slice_def py_stride_def)
  have async: "{req_id. \<exists>request. (req_id, request) \<in> set (cm_request_meta example_metadata) \<and>
      fst (dm_dump_block_ids request) \<noteq> []} = {''r''}"
    by (auto simp: example_metadata_def example_plan_def)
  have poll: "poll_pending_dump_tasks one_event_world example_worker_conf (init_worker NpuDevice True True) t0 =
      (init_worker NpuDevice True True, t0)" for t0
    by (simp add: poll_pending_dump_tasks_def init_worker_def)
  have ptrs: "block_ptrs example_worker_conf [3] = Inr [[4192]]"
    by (simp add: block_ptrs_def example_worker_conf_def extract_block_addrs_def to_u64_def block_addr_def)
  obtain d t1 where "get_event_handle one_event_world (wk_device ?wk) [PerfCounter] = (5, d, t1)"
    by (simp add: init_worker_def init_device_def get_event_handle_def npu_get_event_handle_def one_event_world_def
        script_world_def acl_alive_def Let_def)
  then have handle: "get_dump_event_handle one_event_world example_worker_conf ?wk [PerfCounter] = (Inr 5, ?wk\<lparr>wk_device := d\<rparr>, t1)"
    by (simp add: get_dump_event_handle_def example_worker_conf_def Let_def)
  have init: "wk_pending_dump_tasks (init_worker NpuDevice True True) = []"
    "wk_async_dump_req_ids (init_worker NpuDevice True True) = {}"
    by (simp_all add: init_worker_def)
  have "w_dump_data one_event_world = (\<lambda>t s ids sh ptrs h. Inr (next_handle t))"
    by (simp add: one_event_world_def script_world_def)
  then have accepted: "\<exists>tk m' t'. submit_dump one_event_world store ctx ids shards ptrs handle m t = (Inr tk, m', t')"
    for store ctx ids shards ptrs handle m t
    by (simp add: submit_dump_def store_dump_data_def Let_def)
  let ?ids = "rank_block_ids example_worker_conf [''c'']"
  obtain tk m t3 where acc: "submit_dump one_event_world (wc_store example_worker_conf) [(''r'', {''c''})] ?ids
      (replicate (length ?ids) 0) [[4192]] 5 (wk_rank_consistency (init_worker NpuDevice True True)) t1 = (Inr tk, m, t3)"
    using accepted by blast
  have ok: "r = Inr (tk, 5)"
    using sub by (simp add: submit_step_dump_def ptrs handle acc Let_def)
  have books: "wk_pending_dump_tasks wk2 = []" "wk_async_dump_req_ids wk2 = {''r''}"
    using submit_step_books [OF sub order_refl] init by simp_all
  have "wk_async_dump_req_ids wk = {''r''} \<and> length (wk_pending_dump_tasks wk) = 1"
  proof -
    have wk: "init_worker NpuDevice True True\<lparr>wk_async_dump_req_ids := wk_async_dump_req_ids (init_worker NpuDevice True True) \<union> {''r''}\<rparr> = ?wk"
      by (simp add: init)
    obtain pd where "wk = wk2\<lparr>wk_pending_dump_tasks := wk_pending_dump_tasks wk2 @ [pd]\<rparr>"
      using run unfolding wait_for_save_def perf_counter_ms_def prod.case append_Nil poll Let_def async dumps wk sub ok sum.case
      by (metis (no_types) list.distinct(1) Pair_inject)
    with books show ?thesis by simp
  qed
  with reach show ?thesis by blast
qed

text \<open>
  C2: \<open>get_finished\<close> always answers. Whatever a worker has done before (loads, saves that
  failed or not, preemptions, reports), when vLLM tells it which requests ended, the consistency
  manager's guard \<open>Cannot finish dump before all its tasks are waited.\<close> is never raised: the
  answer is exactly the ended requests that had anything to dump, every dump task of theirs has
  been waited for, and the worker forgets them.
\<close>

theorem get_finished_answers:
  assumes "worker_reach kind W K wk t"
  shows "\<exists>recving wk' t'. get_finished W K F wk t = (Inr (F \<inter> wk_async_dump_req_ids wk, recving), wk', t') \<and>
    wk_async_dump_req_ids wk' = wk_async_dump_req_ids wk - F \<and>
    (\<forall>pd \<in> set (wk_pending_dump_tasks wk'). pd_request_ids pd \<inter> (F \<inter> wk_async_dump_req_ids wk) = {})"
proof -
  obtain r wk' t' where run: "get_finished W K F wk t = (r, wk', t')" by (rule prod_cases3)
  from finished_books [OF run worker_books [OF assms]] run show ?thesis by metis
qed

lemma get_finished_answers_witness:
  "\<exists>wk t recving wk' t'. wk_async_dump_req_ids wk = {''r''} \<and>
     get_finished one_event_world example_worker_conf {''r'', ''s''} wk t = (Inr ({''r''}, recving), wk', t') \<and>
     wk_async_dump_req_ids wk' = {}"
proof -
  from example_saved obtain wk t where "worker_reach NpuDevice one_event_world example_worker_conf wk t"
    and a: "wk_async_dump_req_ids wk = {''r''}" by blast
  from get_finished_answers [OF this(1), of "{''r'', ''s''}"] a show ?thesis by fastforce
qed

text \<open>
  C35: on an NPU a worker neither leaks an event nor destroys one twice, on every path of its
  life: after any calls, saves that the store rejects and waits that fail included, the ACL
  events alive are exactly the handles of the pending dump tasks, each held by one task only,
  and every destruction was of an event alive at that point. An event is a non-null pointer.
\<close>

theorem worker_events_balanced:
  assumes "worker_reach NpuDevice W K wk t" "acl_as_documented W"
    and "\<forall>t event. w_acl_create W t = Inr (event, 0) \<longrightarrow> event \<noteq> 0"
  shows "acl_alive t = set (held_handles (wk_pending_dump_tasks wk)) \<and>
    distinct (held_handles (wk_pending_dump_tasks wk)) \<and> destroys_alive {} t"
  using worker_events [OF assms] by (simp add: events_kept_def events_ok_def)

lemma worker_events_balanced_witness:
  "\<exists>wk t. length (wk_pending_dump_tasks wk) = 1 \<and>
     worker_reach NpuDevice one_event_world example_worker_conf wk t \<and>
     acl_alive t = set (held_handles (wk_pending_dump_tasks wk)) \<and> destroys_alive {} t"
proof -
  from example_saved obtain wk t where reach: "worker_reach NpuDevice one_event_world example_worker_conf wk t"
    and n: "length (wk_pending_dump_tasks wk) = 1" by blast
  have "\<forall>t event. w_acl_create one_event_world t = Inr (event, 0) \<longrightarrow> event \<noteq> 0"
    by (simp add: one_event_world_def script_world_def)
  from worker_events_balanced [OF reach one_event_world_documented this] n reach show ?thesis by blast
qed

text \<open>
  C3: no load is lost in silence. After \<open>start_load_kv\<close>, each synchronous load of the step
  was accepted by the store and waited for with success during the call, or the request is
  among the failed ones reported to the scheduler and all its load and dump blocks are among
  those reported to vLLM as invalid.
\<close>

theorem loads_complete_or_reported:
  assumes "start_load_kv W K metadata wk t = (wk', t')" "distinct (map fst (cm_request_meta metadata))"
    and "\<not> wc_skip_null_vllm_blocks K" "(q, request) \<in> set (cm_request_meta metadata)"
    and "\<not> dm_load_async request" "fst (dm_load_block_ids request) \<noteq> []"
  shows "(\<exists>tk. load_accepted K request tk (events_since t t') \<and> load_waited tk (events_since t t')) \<or>
    load_reported q request wk'"
proof -
  let ?ll = "\<lparr> ll_request_to_task = [], ll_request_to_load_blocks = [], ll_is_load = False, ll_num_loaded_block = 0 \<rparr>"
  let ?plans = "cm_request_meta metadata"
  obtain ll1 wk1 t1 where 1: "fold (load_request W K) ?plans (?ll, wk, t) = (ll1, wk1, t1)" by (rule prod_cases3)
  obtain ll2 wk2 t2 where 2: "wait_loads W ?plans (ll_request_to_task ll1) (ll1, wk1, t1) = (ll2, wk2, t2)" by (rule prod_cases3)
  have out: "wk' = wk2" "t' = t2 \<or> (\<exists>ev. t' = t2 @ [ev])"
    using assms(1) by (auto simp: start_load_kv_def Let_def 1 2 update_stats_def split: if_splits)
  from load_fold_outcome [OF 1 assms(2,3)] have g1: "reports_grow (wk, t) (wk1, t1)" by blast
  from wait_loads_outcome [OF 2] have "reports_grow (wk1, t1) (wk2, t2)" by blast
  moreover have "reports_grow (wk2, t2) (wk', t')" using out by (auto simp: reports_grow_def)
  ultimately have g2: "reports_grow (wk1, t1) (wk', t')" and g3: "reports_grow (wk2, t2) (wk', t')"
    and g12: "reports_grow (wk1, t1) (wk2, t2)" by (auto intro: reports_grow_trans)
  note since = since_mono [OF g1 g2] and since2 = since_mono [OF g12 g3]
  show ?thesis
  proof (cases "load_reported q request wk'")
    case False
    then have "\<not> load_reported q request wk1" using reported_kept [OF _ g2] by blast
    with load_fold_outcome [OF 1 assms(2,3)] assms(4-6) obtain tk where
      tk: "map_of (ll_request_to_task ll1) q = Some tk" and acc: "load_accepted K request tk (events_since t t1)" by blast
    have "map_of ?plans q = Some request" using assms(2,4) by simp
    with wait_loads_outcome [OF 2] map_of_SomeD [OF tk] False out(1) have "load_waited tk (events_since t1 t2)" by blast
    from waited_mono [OF waited_mono [OF this since2(1)] since(2)] accepted_mono [OF acc since(1)] show ?thesis by blast
  qed simp
qed

lemma loads_complete_or_reported_witness:
  "\<exists>wk' t'. start_load_kv (script_world []) example_worker_conf example_metadata (init_worker CudaDevice True True) [] = (wk', t') \<and>
     ((\<exists>tk. load_accepted example_worker_conf example_plan tk (events_since [] t') \<and> load_waited tk (events_since [] t')) \<or>
      load_reported ''r'' example_plan wk')"
proof -
  obtain wk' t' where run: "start_load_kv (script_world []) example_worker_conf example_metadata
    (init_worker CudaDevice True True) [] = (wk', t')" by (rule prod.exhaust)
  have "distinct (map fst (cm_request_meta example_metadata))" "(''r'', example_plan) \<in> set (cm_request_meta example_metadata)"
    "\<not> wc_skip_null_vllm_blocks example_worker_conf" "\<not> dm_load_async example_plan" "fst (dm_load_block_ids example_plan) \<noteq> []"
    by (simp_all add: example_metadata_def example_worker_conf_def example_plan_def)
  from loads_complete_or_reported [OF run this(1,3,2,4,5)] run show ?thesis by blast
qed

text \<open>
  C36: polling the asynchronous loads reports each request once. What \<open>get_finished\<close> tells
  vLLM as received are the loads that never started a task plus some of the pending ones; those
  leave the pending table, and the rest stay in it. A pending load is reported only if its task
  was waited for with success, or its failure is reported with all its blocks; it stays only if
  the store said it still runs.
\<close>

theorem async_loads_reported_once:
  assumes "poll_pending_load_tasks W wk t = (received, wk', t')" "dict_wf (wk_pending_load_tasks wk)"
  shows "\<exists>completed. completed \<subseteq> fst ` set (wk_pending_load_tasks wk) \<and>
    received = wk_finished_async_load_req_ids wk \<union> completed \<and> wk_finished_async_load_req_ids wk' = {} \<and>
    wk_pending_load_tasks wk' = filter (\<lambda>(q, _). q \<notin> completed) (wk_pending_load_tasks wk) \<and>
    (\<forall>(q, pl) \<in> set (wk_pending_load_tasks wk).
       if q \<in> completed then load_waited (pl_task pl) (events_since t t') \<or> load_failed q pl wk'
       else load_running (pl_task pl) (events_since t t'))"
proof -
  from assms(2) have d: "distinct (map fst (wk_pending_load_tasks wk))" by (simp add: dict_wf_def)
  from poll_load_outcome [OF assms(1) [unfolded poll_pending_load_tasks_def] d] obtain C where
    "C \<subseteq> fst ` set (wk_pending_load_tasks wk)" "received = wk_finished_async_load_req_ids wk \<union> C"
    "wk_finished_async_load_req_ids wk' = {}"
    "wk_pending_load_tasks wk' = filter (\<lambda>(q, _). q \<notin> C) (wk_pending_load_tasks wk)"
    "\<forall>(q, pl) \<in> set (wk_pending_load_tasks wk).
       if q \<in> C then load_waited (pl_task pl) (events_since t t') \<or> load_failed q pl wk'
       else load_running (pl_task pl) (events_since t t')" by auto
  then show ?thesis by blast
qed

lemma async_loads_reported_once_witness:
  "\<exists>wk wk' t' received completed. fst ` set (wk_pending_load_tasks wk) = {''r''} \<and>
     poll_pending_load_tasks (script_world []) wk [] = (received, wk', t') \<and>
     completed \<subseteq> {''r''} \<and> received = completed \<and> wk_finished_async_load_req_ids wk' = {} \<and>
     wk_pending_load_tasks wk' = filter (\<lambda>(q, _). q \<notin> completed) (wk_pending_load_tasks wk)"
proof -
  define wk where "wk = (init_worker CudaDevice True True)\<lparr>wk_pending_load_tasks :=
    [(''r'', \<lparr> pl_task = 1, pl_request_id = ''r'', pl_vllm_block_ids = [4] \<rparr>)]\<rparr>"
  obtain received wk' t' where run: "poll_pending_load_tasks (script_world []) wk [] = (received, wk', t')" by (rule prod_cases3)
  have wf: "dict_wf (wk_pending_load_tasks wk)" "wk_finished_async_load_req_ids wk = {}"
    "fst ` set (wk_pending_load_tasks wk) = {''r''}" by (simp_all add: wk_def dict_wf_def init_worker_def)
  from async_loads_reported_once [OF run wf(1)] obtain C where "C \<subseteq> {''r''}" "received = C"
    "wk_finished_async_load_req_ids wk' = {}"
    "wk_pending_load_tasks wk' = filter (\<lambda>(q, _). q \<notin> C) (wk_pending_load_tasks wk)"
    unfolding wf(2,3) Un_empty_left by blast
  with run wf(3) show ?thesis by blast
qed

text \<open>
  C11: with MLA every block of a dump is written by exactly one rank of the tensor-parallel
  group. Over the ranks, the blocks \<open>get_rank_dump_blocks\<close> selects add up, with multiplicity, to
  the dump list (less the null blocks when those are skipped), and the rank of a block depends
  only on its position in the request: a dump cut into two chunks gives each rank the same
  blocks as the uncut dump.
\<close>

theorem mla_striping_partition:
  assumes "0 < wc_tp_size K" "wc_is_mla K" "length us = length vs" "dm_dump_block_ids request = (us, vs)"
  shows "(\<Sum>r\<in>{0..<wc_tp_size K}. mset (case get_rank_dump_blocks (K\<lparr>wc_tp_rank := r\<rparr>) request of (u, v) \<Rightarrow> zip u v)) =
         mset (filter (\<lambda>(u, v). wc_skip_null_vllm_blocks K \<longrightarrow> v \<noteq> 0) (zip us vs)) \<and>
    (\<forall>r n s. n \<le> length us \<longrightarrow>
       select_mla_dump_blocks r (wc_tp_size K) s (us, vs) =
         (let (u1, v1) = select_mla_dump_blocks r (wc_tp_size K) s (take n us, take n vs);
              (u2, v2) = select_mla_dump_blocks r (wc_tp_size K) (s + int n) (drop n us, drop n vs)
          in (u1 @ u2, v1 @ v2)))"
proof
  let ?P = "\<lambda>(u, v). wc_skip_null_vllm_blocks K \<longrightarrow> v \<noteq> (0::int)" and ?tp = "wc_tp_size K"
  let ?i = "\<lambda>r. nat ((r mod ?tp - dm_dump_block_start request) mod ?tp)"
  have "(case get_rank_dump_blocks (K\<lparr>wc_tp_rank := r\<rparr>) request of (u, v) \<Rightarrow> zip u v) =
      filter ?P (py_stride (zip us vs) (?i r) (nat ?tp))" for r
  proof (cases "wc_skip_null_vllm_blocks K")
    case True
    then show ?thesis using assms drop_null_zip py_stride_zip [OF assms(3)]
      by (simp add: get_rank_dump_blocks_def select_mla_dump_blocks_def get_mla_dump_slice_def Let_def)
  next
    case False
    then show ?thesis using assms py_stride_zip [OF assms(3)]
      by (simp add: get_rank_dump_blocks_def select_mla_dump_blocks_def get_mla_dump_slice_def Let_def case_prod_beta)
  qed
  then show "(\<Sum>r\<in>{0..<?tp}. mset (case get_rank_dump_blocks (K\<lparr>wc_tp_rank := r\<rparr>) request of (u, v) \<Rightarrow> zip u v)) =
      mset (filter ?P (zip us vs))"
    by (simp only: strides_gather [OF assms(1)])
next
  have split: "py_stride xs (nat ((r mod wc_tp_size K - s) mod wc_tp_size K)) (nat (wc_tp_size K)) =
      py_stride (take n xs) (nat ((r mod wc_tp_size K - s) mod wc_tp_size K)) (nat (wc_tp_size K)) @
      py_stride (drop n xs) (nat ((r mod wc_tp_size K - (s + int n)) mod wc_tp_size K)) (nat (wc_tp_size K))"
    if "n \<le> length xs" for xs :: "'x list" and r n s
    using stride_append [OF assms(1), of "take n xs" "drop n xs"] that by (simp add: min_absorb2)
  show "\<forall>r n s. n \<le> length us \<longrightarrow>
       select_mla_dump_blocks r (wc_tp_size K) s (us, vs) =
         (let (u1, v1) = select_mla_dump_blocks r (wc_tp_size K) s (take n us, take n vs);
              (u2, v2) = select_mla_dump_blocks r (wc_tp_size K) (s + int n) (drop n us, drop n vs)
          in (u1 @ u2, v1 @ v2))"
    using split [of _ us] split [of _ vs] assms(3)
    by (simp add: select_mla_dump_blocks_def get_mla_dump_slice_def Let_def)
qed

lemma mla_striping_partition_witness:
  "0 < wc_tp_size example_worker_conf \<and> wc_is_mla example_worker_conf \<and>
   dm_dump_block_ids example_plan = ([''b'', ''c''], [2, 3]) \<and>
   (\<Sum>r\<in>{0..<wc_tp_size example_worker_conf}.
      mset (case get_rank_dump_blocks (example_worker_conf\<lparr>wc_tp_rank := r\<rparr>) example_plan of (u, v) \<Rightarrow> zip u v)) =
   {#(''b'', 2), (''c'', 3)#}"
proof -
  have "0 < wc_tp_size example_worker_conf" "wc_is_mla example_worker_conf"
    "dm_dump_block_ids example_plan = ([''b'', ''c''], [2, 3])" "\<not> wc_skip_null_vllm_blocks example_worker_conf"
    by (simp_all add: example_worker_conf_def example_plan_def)
  with mla_striping_partition [of example_worker_conf "[''b'', ''c'']" "[2, 3]" example_plan] show ?thesis by simp
qed

end
