(* ===== verification/Layerwise.thy ===== *)
theory Layerwise
  imports Direct_Worker
begin

text \<open>
  The worker side of \<open>UCMLayerWiseConnector\<close> (ucm_connector.py): loads are submitted one layer
  ahead of the forward pass and every layer is dumped as soon as it is computed. What it
  inherits from \<open>UCMDirectConnector\<close> (preemptions, finished transfers, reports) works on the
  worker state inside. Its state of one batch is reset when the metadata of a step is bound.
\<close>

section \<open>State\<close>

record layer_conf =
  ly_worker_conf :: worker_conf
  ly_layer_name_to_id :: "(string \<times> int) list"
  ly_layer_ids :: "int list"
  ly_first_layer_id :: int

text \<open>A load of the batch: request, its block ids, the ids for the store and the addresses by layer.\<close>

type_synonym request_load = "string \<times> bytes list \<times> bytes list \<times> u64 list list list"

record layerwise =
  lw_worker :: worker
  lw_connector_metadata :: "connector_metadata option"
  lw_load_tasks :: "(int \<times> (string \<times> task) list) list"
  lw_need_load :: bool
  lw_dump_total_ptrs :: "u64 list list list option"
  lw_request_data :: "request_load list"
  lw_failure_req_ids :: "string set"
  lw_dumped_layer_ids :: "int set"
  lw_load_start_by_layer :: "(int \<times> real) list"
  lw_layer_load_duration_sum_ms :: real
  lw_load_bytes :: int
  lw_save_bytes :: int

definition init_layerwise :: "worker \<Rightarrow> layerwise" where
  "init_layerwise wk =
     \<lparr> lw_worker = wk, lw_connector_metadata = None, lw_load_tasks = [], lw_need_load = False,
       lw_dump_total_ptrs = None, lw_request_data = [], lw_failure_req_ids = {}, lw_dumped_layer_ids = {},
       lw_load_start_by_layer = [], lw_layer_load_duration_sum_ms = 0, lw_load_bytes = 0, lw_save_bytes = 0 \<rparr>"

definition bind_connector_metadata :: "connector_metadata \<Rightarrow> layerwise \<Rightarrow> layerwise" where
  "bind_connector_metadata metadata lw =
     lw\<lparr>lw_connector_metadata := Some metadata, lw_dumped_layer_ids := {}, lw_load_tasks := [], lw_request_data := [],
        lw_failure_req_ids := {}, lw_need_load := False, lw_load_start_by_layer := [],
        lw_layer_load_duration_sum_ms := 0, lw_load_bytes := 0, lw_save_bytes := 0, lw_dump_total_ptrs := None\<rparr>"

definition perf_counter :: "world \<Rightarrow> trace \<Rightarrow> real \<times> trace" where
  "perf_counter W t = (w_clock W t, t @ [PerfCounter])"

definition layer_store_ids :: "worker_conf \<Rightarrow> bytes list \<Rightarrow> bytes list" where
  "layer_store_ids K ucm_block_ids =
     (if wc_tp_rank K mod wc_tp_size K \<noteq> 0 \<and> \<not> wc_is_mla K then map (wc_request_hasher K) ucm_block_ids
      else ucm_block_ids)"

text \<open>With \<open>layer_first=True\<close> the addresses come as layers of blocks of segments.\<close>

definition layer_first_addrs :: "worker_conf \<Rightarrow> int list \<Rightarrow> u64 list list list res" where
  "layer_first_addrs K vllm_block_ids =
     bindR (extract_block_addrs (wc_kv_cache_layout K) vllm_block_ids True)
       (\<lambda>arr. case arr of Addr3 rows \<Rightarrow> Inr rows | Addr2 _ \<Rightarrow> Inl IndexError)"

section \<open>Loads\<close>

definition fail_layer_load ::
  "string \<Rightarrow> dispatches \<Rightarrow> string \<Rightarrow> layerwise \<Rightarrow> trace \<Rightarrow> unit res \<times> layerwise \<times> trace" where
  "fail_layer_load metric plans req_id lw t =
     (case dict_get plans req_id of
        Inl e \<Rightarrow> (Inl e, lw, t)
      | Inr request \<Rightarrow>
          (case record_load_error metric (snd (dm_load_block_ids request) @ snd (dm_dump_block_ids request))
                  (lw_worker lw) t of
             (wk, t) \<Rightarrow>
               (Inr (), lw\<lparr>lw_worker := mark_failed req_id wk,
                           lw_failure_req_ids := insert req_id (lw_failure_req_ids lw)\<rparr>, t)))"

text \<open>The loop of \<open>_submit_request_load_tasks_for_layer\<close>; the result says whether anything was submitted.\<close>

definition put_load_task :: "int \<Rightarrow> string \<Rightarrow> task \<Rightarrow> layerwise \<Rightarrow> layerwise" where
  "put_load_task layer_id req_id tk lw =
     lw\<lparr>lw_load_tasks := AList.update layer_id
          (AList.update req_id tk (case map_of (lw_load_tasks lw) layer_id of None \<Rightarrow> [] | Some d \<Rightarrow> d))
          (lw_load_tasks lw)\<rparr>"

fun submit_layer_loads ::
  "world \<Rightarrow> worker_conf \<Rightarrow> dispatches \<Rightarrow> int \<Rightarrow> int \<Rightarrow> request_load list \<Rightarrow> bool \<Rightarrow> layerwise \<Rightarrow> trace \<Rightarrow>
   bool res \<times> layerwise \<times> trace" where
  "submit_layer_loads W K plans layer_id local_row [] submitted lw t = (Inr submitted, lw, t)"
| "submit_layer_loads W K plans layer_id local_row ((req_id, ucm_block_ids, store_block_ids, total_ptrs) # rest) submitted lw t =
     (if req_id \<in> lw_failure_req_ids lw then submit_layer_loads W K plans layer_id local_row rest submitted lw t
      else
        case (case py_nth total_ptrs local_row of
                Inl e \<Rightarrow> (Inl e, wk_rank_consistency (lw_worker lw), t)
              | Inr layer_ptrs \<Rightarrow>
                  submit_load W (wc_store K) [(req_id, ucm_block_ids)] store_block_ids
                    (replicate (length ucm_block_ids) layer_id) layer_ptrs (wc_is_mla K)
                    (wk_rank_consistency (lw_worker lw)) t) of
          (Inr tk, m, t) \<Rightarrow>
            submit_layer_loads W K plans layer_id local_row rest True
              (put_load_task layer_id req_id tk (lw\<lparr>lw_worker := (lw_worker lw)\<lparr>wk_rank_consistency := m\<rparr>\<rparr>)) t
        | (Inl e, m, t) \<Rightarrow>
            (case fail_layer_load ''connector_load_submit_errors_total'' plans req_id
                    (lw\<lparr>lw_worker := (lw_worker lw)\<lparr>wk_rank_consistency := m\<rparr>\<rparr>) t of
               (Inl e, lw, t) \<Rightarrow> (Inl e, lw, t)
             | (Inr _, lw, t) \<Rightarrow> submit_layer_loads W K plans layer_id local_row rest submitted lw t))"

definition submit_request_load_tasks_for_layer ::
  "world \<Rightarrow> worker_conf \<Rightarrow> int \<Rightarrow> int \<Rightarrow> dispatches \<Rightarrow> real option \<Rightarrow> layerwise \<Rightarrow> trace \<Rightarrow> unit res \<times> layerwise \<times> trace" where
  "submit_request_load_tasks_for_layer W K layer_id local_row plans load_start lw t =
     (case (case load_start of None \<Rightarrow> perf_counter W t | Some s \<Rightarrow> (s, t)) of
        (load_start, t) \<Rightarrow>
          (case submit_layer_loads W K plans layer_id local_row (lw_request_data lw) False lw t of
             (Inl e, lw, t) \<Rightarrow> (Inl e, lw, t)
           | (Inr submitted, lw, t) \<Rightarrow>
               (Inr (),
                if submitted
                then lw\<lparr>lw_load_start_by_layer := AList.update layer_id load_start (lw_load_start_by_layer lw)\<rparr>
                else lw, t)))"

fun prepare_loads :: "worker_conf \<Rightarrow> dispatches \<Rightarrow> layerwise \<Rightarrow> unit res \<times> layerwise" where
  "prepare_loads K [] lw = (Inr (), lw)"
| "prepare_loads K ((req_id, request) # rest) lw =
     (if fst (dm_load_block_ids request) = [] then prepare_loads K rest lw
      else
        let lw = lw\<lparr>lw_need_load := True\<rparr>; ucm_block_ids = fst (dm_load_block_ids request)
        in case layer_first_addrs K (snd (dm_load_block_ids request)) of
             Inl e \<Rightarrow> (Inl e, lw)
           | Inr total_ptrs \<Rightarrow>
               prepare_loads K rest
                 (lw\<lparr>lw_request_data := lw_request_data lw @
                       [(req_id, ucm_block_ids, layer_store_ids K ucm_block_ids, total_ptrs)]\<rparr>))"

definition lw_start_load_kv :: "world \<Rightarrow> layer_conf \<Rightarrow> layerwise \<Rightarrow> trace \<Rightarrow> unit res \<times> layerwise \<times> trace" where
  "lw_start_load_kv W L lw t =
     (case perf_counter W t of (first_layer_load_start, t) \<Rightarrow>
        (case lw_connector_metadata lw of
           None \<Rightarrow> (Inl AssertionError, lw, t)
         | Some metadata \<Rightarrow>
             (case prepare_loads (ly_worker_conf L) (cm_request_meta metadata) lw of
                (Inl e, lw) \<Rightarrow> (Inl e, lw, t)
              | (Inr _, lw) \<Rightarrow>
                  if lw_need_load lw
                  then submit_request_load_tasks_for_layer W (ly_worker_conf L) (ly_first_layer_id L) 0
                         (cm_request_meta metadata) (Some first_layer_load_start) lw t
                  else (Inr (), lw, t))))"

definition record_layerwise_load_duration :: "int \<Rightarrow> real \<Rightarrow> layerwise \<Rightarrow> trace \<Rightarrow> bool \<times> layerwise \<times> trace" where
  "record_layerwise_load_duration layer_id load_end lw t =
     (case map_of (lw_load_start_by_layer lw) layer_id of
        None \<Rightarrow> (False, lw, t)
      | Some load_start \<Rightarrow>
          let duration_ms = non_negative_ms ((load_end - load_start) * 1000)
          in (True,
              lw\<lparr>lw_load_start_by_layer := AList.delete layer_id (lw_load_start_by_layer lw),
                 lw_layer_load_duration_sum_ms := lw_layer_load_duration_sum_ms lw + duration_ms\<rparr>,
              update_stats [(''layerwise_layer_load_duration_ms'', duration_ms)] t))"

fun wait_layer_tasks ::
  "world \<Rightarrow> worker_conf \<Rightarrow> dispatches \<Rightarrow> (string \<times> task) list \<Rightarrow> layerwise \<Rightarrow> trace \<Rightarrow> unit res \<times> layerwise \<times> trace" where
  "wait_layer_tasks W K plans [] lw t = (Inr (), lw, t)"
| "wait_layer_tasks W K plans ((req_id, tk) # rest) lw t =
     (case wait_load W tk None (wk_rank_consistency (lw_worker lw)) t of
        (r, m, t) \<Rightarrow>
          let lw = lw\<lparr>lw_worker := (lw_worker lw)\<lparr>wk_rank_consistency := m\<rparr>\<rparr>
          in case r of
               Inl e \<Rightarrow>
                 (case fail_layer_load ''connector_load_wait_errors_total'' plans req_id lw t of
                    (Inl e, lw, t) \<Rightarrow> (Inl e, lw, t)
                  | (Inr _, lw, t) \<Rightarrow> wait_layer_tasks W K plans rest lw t)
             | Inr _ \<Rightarrow>
                 (case dict_get plans req_id of
                    Inl e \<Rightarrow> (Inl e, lw, t)
                  | Inr request \<Rightarrow>
                      wait_layer_tasks W K plans rest
                        (lw\<lparr>lw_load_bytes := lw_load_bytes lw +
                              int (length (fst (dm_load_block_ids request))) * shard_size (wc_kv_cache_layout K)\<rparr>) t))"

text \<open>After the waits: the duration of the layer, then the next layer's loads or the batch's metrics.\<close>

definition after_layer_load ::
  "world \<Rightarrow> layer_conf \<Rightarrow> dispatches \<Rightarrow> int \<Rightarrow> layerwise \<Rightarrow> trace \<Rightarrow> unit res \<times> layerwise \<times> trace" where
  "after_layer_load W L plans current_layer_id lw t =
     (case perf_counter W t of (wait_end, t) \<Rightarrow>
        (case record_layerwise_load_duration current_layer_id wait_end lw t of
           (load_duration_recorded, lw, t) \<Rightarrow>
             let next_layer_id = current_layer_id + 1
             in if next_layer_id \<in> set (ly_layer_ids L)
                then submit_request_load_tasks_for_layer W (ly_worker_conf L) next_layer_id
                       (next_layer_id - ly_first_layer_id L) plans None lw t
                else if load_duration_recorded
                then (Inr (), lw\<lparr>lw_layer_load_duration_sum_ms := 0, lw_load_bytes := 0\<rparr>,
                      update_stats [(''layerwise_batch_load_duration_sum_ms'', lw_layer_load_duration_sum_ms lw),
                        (''load_bytes_total'', of_int (lw_load_bytes lw))] t)
                else (Inr (), lw, t)))"

definition wait_for_layer_load ::
  "world \<Rightarrow> layer_conf \<Rightarrow> string \<Rightarrow> layerwise \<Rightarrow> trace \<Rightarrow> unit res \<times> layerwise \<times> trace" where
  "wait_for_layer_load W L layer_name lw t =
     (case lw_connector_metadata lw of
        None \<Rightarrow> (Inr (), lw, t)
      | Some metadata \<Rightarrow>
          if \<not> lw_need_load lw then (Inr (), lw, t)
          else case dict_get (ly_layer_name_to_id L) layer_name of
                 Inl e \<Rightarrow> (Inl e, lw, t)
               | Inr current_layer_id \<Rightarrow>
                   let layer_tasks = (case map_of (lw_load_tasks lw) current_layer_id of None \<Rightarrow> [] | Some d \<Rightarrow> d);
                       lw = lw\<lparr>lw_load_tasks := AList.delete current_layer_id (lw_load_tasks lw)\<rparr>
                   in if layer_tasks = [] then (Inr (), lw, t)
                      else case wait_layer_tasks W (ly_worker_conf L) (cm_request_meta metadata) layer_tasks lw t of
                             (Inl e, lw, t) \<Rightarrow> (Inl e, lw, t)
                           | (Inr _, lw, t) \<Rightarrow> after_layer_load W L (cm_request_meta metadata) current_layer_id lw t)"

section \<open>Dumps\<close>

text \<open>
  The try block of \<open>_submit_layerwise_dump_task\<close>. The dictionary of requests is built from a
  set, whose order does not matter; here it is the order of the plans.
\<close>

definition try_layer_dump ::
  "world \<Rightarrow> layer_conf \<Rightarrow> int \<Rightarrow> bytes list \<Rightarrow> (string \<times> bytes set) list \<Rightarrow> u64 list list list \<Rightarrow> worker \<Rightarrow> trace \<Rightarrow>
   (task \<times> int) res \<times> int \<times> worker \<times> trace" where
  "try_layer_dump W L layer_id total_ucm_block_ids block_ids_by_request dump_total_ptrs wk t =
     (let K = ly_worker_conf L
      in case py_nth dump_total_ptrs (layer_id - ly_first_layer_id L) of
           Inl e \<Rightarrow> (Inl e, 0, wk, t)
         | Inr layer_ptrs \<Rightarrow>
             (case get_dump_event_handle W K wk t of
                (Inl e, wk, t) \<Rightarrow> (Inl e, 0, wk, t)
              | (Inr event_handle, wk, t) \<Rightarrow>
                  (case submit_dump W (wc_store K) block_ids_by_request total_ucm_block_ids
                          (replicate (length total_ucm_block_ids) layer_id) layer_ptrs event_handle
                          (wk_rank_consistency wk) t of
                     (r, m, t) \<Rightarrow>
                       (map_sum id (\<lambda>tk. (tk, event_handle)) r, event_handle, wk\<lparr>wk_rank_consistency := m\<rparr>, t))))"

definition submit_layerwise_dump_task ::
  "world \<Rightarrow> layer_conf \<Rightarrow> int \<Rightarrow> (string \<times> bytes list \<times> int list) list \<Rightarrow> layerwise \<Rightarrow> trace \<Rightarrow> bool res \<times> layerwise \<times> trace" where
  "submit_layerwise_dump_task W L layer_id dumps lw t =
     (let K = ly_worker_conf L;
          total_ucm_block_ids = concat (map (\<lambda>(_, u, _). layer_store_ids K u) dumps);
          total_vllm_block_ids = concat (map (\<lambda>(_, _, v). v) dumps);
          block_ids_by_request = map (\<lambda>(req_id, u, _). (req_id, set u)) dumps
      in case (case lw_dump_total_ptrs lw of None \<Rightarrow> layer_first_addrs K total_vllm_block_ids | Some p \<Rightarrow> Inr p) of
           Inl e \<Rightarrow> (Inl e, lw, t)
         | Inr ptrs \<Rightarrow>
             let lw = lw\<lparr>lw_dump_total_ptrs := Some ptrs\<rparr>
             in case try_layer_dump W L layer_id total_ucm_block_ids block_ids_by_request ptrs (lw_worker lw) t of
                  (Inr (tk, event_handle), _, wk, t) \<Rightarrow>
                    (Inr True,
                     lw\<lparr>lw_worker := wk\<lparr>wk_pending_dump_tasks := wk_pending_dump_tasks wk @
                           [\<lparr> pd_task = tk, pd_request_ids = fst ` set dumps, pd_event_handle = event_handle,
                              pd_wait_for_save_start_ms = 0 \<rparr>]\<rparr>,
                        lw_save_bytes := lw_save_bytes lw +
                          int (length total_ucm_block_ids) * shard_size (wc_kv_cache_layout K)\<rparr>, t)
                | (Inl e, event_handle, wk, t) \<Rightarrow>
                    (case release_dump_event_handle K event_handle wk
                            (update_stats [(''connector_dump_submit_errors_total'', 1)] t) of
                       (wk, t) \<Rightarrow> (Inr False, lw\<lparr>lw_worker := wk\<rparr>, t)))"

definition save_kv_layer :: "world \<Rightarrow> layer_conf \<Rightarrow> string \<Rightarrow> layerwise \<Rightarrow> trace \<Rightarrow> unit res \<times> layerwise \<times> trace" where
  "save_kv_layer W L layer_name lw t =
     (case lw_connector_metadata lw of
        None \<Rightarrow> (Inr (), lw, t)
      | Some metadata \<Rightarrow>
          (case dict_get (ly_layer_name_to_id L) layer_name of
             Inl e \<Rightarrow> (Inl e, lw, t)
           | Inr layer_id \<Rightarrow>
               if layer_id \<in> lw_dumped_layer_ids lw then (Inr (), lw, t)
               else
                 let dumps = rank_dumps (ly_worker_conf L) (cm_request_meta metadata)
                 in if dumps = [] then (Inr (), lw, t)
                    else case submit_layerwise_dump_task W L layer_id dumps lw t of
                           (Inl e, lw, t) \<Rightarrow> (Inl e, lw, t)
                         | (Inr submitted, lw, t) \<Rightarrow>
                             (Inr (),
                              if submitted then lw\<lparr>lw_dumped_layer_ids := insert layer_id (lw_dumped_layer_ids lw)\<rparr>
                              else lw, t)))"

definition lw_wait_for_save :: "world \<Rightarrow> layer_conf \<Rightarrow> layerwise \<Rightarrow> trace \<Rightarrow> layerwise \<times> trace" where
  "lw_wait_for_save W L lw t =
     (case perf_counter_ms W t of (wait_for_save_start_ms, t) \<Rightarrow>
        let wk = (lw_worker lw)\<lparr>wk_pending_dump_tasks :=
               map (\<lambda>pd. if pd_wait_for_save_start_ms pd \<le> 0
                         then pd\<lparr>pd_wait_for_save_start_ms := wait_for_save_start_ms\<rparr> else pd)
                 (wk_pending_dump_tasks (lw_worker lw))\<rparr>
        in case poll_pending_dump_tasks W (ly_worker_conf L) wk t of
             (wk, t) \<Rightarrow>
               let saved = lw_save_bytes lw > 0;
                   t = (if saved then update_stats [(''save_bytes_total'', of_int (lw_save_bytes lw))] t else t);
                   wk = (case lw_connector_metadata lw of
                           None \<Rightarrow> wk
                         | Some metadata \<Rightarrow>
                             wk\<lparr>wk_async_dump_req_ids := wk_async_dump_req_ids wk \<union>
                               {req_id. \<exists>request. (req_id, request) \<in> set (cm_request_meta metadata) \<and>
                                  fst (dm_dump_block_ids request) \<noteq> []}\<rparr>)
               in (lw\<lparr>lw_worker := wk, lw_save_bytes := (if saved then 0 else lw_save_bytes lw),
                      lw_dump_total_ptrs := None\<rparr>, t))"

section \<open>Vocabulary of the properties\<close>

text \<open>
  What the loads of a batch are meant to do: at most one layer is in flight, with the requests
  whose loads for it are under way. A visit of that layer waits for them and launches the next
  layer for the requests that did not fail; a visit of any other layer changes nothing.
\<close>

datatype pipeline = Landed | Flight int "string set"

fun visit :: "int set \<Rightarrow> int \<Rightarrow> string set \<Rightarrow> pipeline \<Rightarrow> pipeline" where
  "visit layers l failed Landed = Landed"
| "visit layers l failed (Flight k R) =
     (if k \<noteq> l then Flight k R
      else if l + 1 \<in> layers \<and> R - failed \<noteq> {} then Flight (l + 1) (R - failed) else Landed)"

fun pipeline_of_tasks :: "(int \<times> (string \<times> task) list) list \<Rightarrow> pipeline" where
  "pipeline_of_tasks [] = Landed"
| "pipeline_of_tasks ((l, d) # _) = Flight l (fst ` set d)"

definition pipeline_of :: "layerwise \<Rightarrow> pipeline" where
  "pipeline_of lw = pipeline_of_tasks (lw_load_tasks lw)"

definition tasks_at :: "int \<Rightarrow> (string \<times> task) list \<Rightarrow> (int \<times> (string \<times> task) list) list" where
  "tasks_at l d = (if d = [] then [] else [(l, d)])"

text \<open>The store accepted the load of a request for one layer, as that task.\<close>

definition layer_accepted :: "worker_conf \<Rightarrow> request_load list \<Rightarrow> int \<Rightarrow> string \<Rightarrow> task \<Rightarrow> trace \<Rightarrow> bool" where
  "layer_accepted K data l q tk t \<longleftrightarrow>
     (\<exists>us ids rows ptrs opt. (q, us, ids, rows) \<in> set data \<and>
        LoadData (wc_store K) ids (replicate (length us) l) ptrs opt (Inr tk) \<in> set t)"

definition failures_reported :: "dispatches \<Rightarrow> layerwise \<Rightarrow> bool" where
  "failures_reported plans lw \<longleftrightarrow>
     (\<forall>q \<in> lw_failure_req_ids lw. \<forall>request. map_of plans q = Some request \<longrightarrow> load_reported q request (lw_worker lw))"

definition flight_ok :: "layer_conf \<Rightarrow> layerwise \<Rightarrow> trace \<Rightarrow> bool" where
  "flight_ok L lw t \<longleftrightarrow>
     (\<exists>l d. lw_load_tasks lw = tasks_at l d \<and> distinct (map fst d) \<and>
        (d \<noteq> [] \<longrightarrow> l \<in> set (ly_layer_ids L) \<and> fst ` set d = fst ` set (lw_request_data lw) - lw_failure_req_ids lw) \<and>
        (\<forall>(q, tk) \<in> set d. layer_accepted (ly_worker_conf L) (lw_request_data lw) l q tk t))"

definition batch_ok :: "layer_conf \<Rightarrow> layerwise \<Rightarrow> trace \<Rightarrow> bool" where
  "batch_ok L lw t \<longleftrightarrow>
     (\<exists>metadata. lw_connector_metadata lw = Some metadata \<and> distinct (map fst (lw_request_data lw)) \<and>
        fst ` set (lw_request_data lw) \<subseteq> fst ` set (cm_request_meta metadata) \<and>
        failures_reported (cm_request_meta metadata) lw) \<and>
     (lw_need_load lw \<or> lw_load_tasks lw = []) \<and> flight_ok L lw t"

text \<open>The dumps of a layer the store accepted.\<close>

fun dumps_layer :: "int \<Rightarrow> event \<Rightarrow> bool" where
  "dumps_layer l (DumpData store ids shards ptrs handle (Inr tk)) = (l \<in> set shards)"
| "dumps_layer l ev = False"

definition layer_dumps :: "int \<Rightarrow> trace \<Rightarrow> nat" where
  "layer_dumps l t = length (filter (dumps_layer l) t)"

text \<open>Everything vLLM may call on a layerwise worker, in any order.\<close>

inductive layerwise_reach :: "device_kind \<Rightarrow> world \<Rightarrow> layer_conf \<Rightarrow> layerwise \<Rightarrow> trace \<Rightarrow> bool" for kind W L where
  lw_init: "layerwise_reach kind W L (init_layerwise (init_worker kind is_mla use)) []"
| lw_bind: "layerwise_reach kind W L lw t \<Longrightarrow> layerwise_reach kind W L (bind_connector_metadata metadata lw) t"
| lw_clear: "layerwise_reach kind W L lw t \<Longrightarrow> layerwise_reach kind W L (lw\<lparr>lw_connector_metadata := None\<rparr>) t"
| lw_load: "layerwise_reach kind W L lw t \<Longrightarrow> lw_start_load_kv W L lw t = (r, lw', t') \<Longrightarrow> layerwise_reach kind W L lw' t'"
| lw_layer: "layerwise_reach kind W L lw t \<Longrightarrow> wait_for_layer_load W L name lw t = (r, lw', t') \<Longrightarrow> layerwise_reach kind W L lw' t'"
| lw_save_layer: "layerwise_reach kind W L lw t \<Longrightarrow> save_kv_layer W L name lw t = (r, lw', t') \<Longrightarrow> layerwise_reach kind W L lw' t'"
| lw_save: "layerwise_reach kind W L lw t \<Longrightarrow> lw_wait_for_save W L lw t = (lw', t') \<Longrightarrow> layerwise_reach kind W L lw' t'"
| lw_preempt: "layerwise_reach kind W L lw t \<Longrightarrow> handle_preemptions W (ly_worker_conf L) ids (lw_worker lw) t = (wk', t') \<Longrightarrow>
    layerwise_reach kind W L (lw\<lparr>lw_worker := wk'\<rparr>) t'"
| lw_finished: "layerwise_reach kind W L lw t \<Longrightarrow> get_finished W (ly_worker_conf L) F (lw_worker lw) t = (r', wk', t') \<Longrightarrow>
    layerwise_reach kind W L (lw\<lparr>lw_worker := wk'\<rparr>) t'"
| lw_errors: "layerwise_reach kind W L lw t \<Longrightarrow> get_block_ids_with_load_errors (lw_worker lw) = (S, wk') \<Longrightarrow>
    layerwise_reach kind W L (lw\<lparr>lw_worker := wk'\<rparr>) t"
| lw_report: "layerwise_reach kind W L lw t \<Longrightarrow> build_connector_worker_meta (lw_worker lw) = (wm, wk') \<Longrightarrow>
    layerwise_reach kind W L (lw\<lparr>lw_worker := wk'\<rparr>) t"

text \<open>The requests a step loads something for.\<close>

definition loading_requests :: "dispatches \<Rightarrow> string set" where
  "loading_requests plans = {q. \<exists>request. (q, request) \<in> set plans \<and> fst (dm_load_block_ids request) \<noteq> []}"

text \<open>A rank of two, with two layers.\<close>

definition example_layer_conf :: layer_conf where
  "example_layer_conf =
     \<lparr> ly_worker_conf = example_worker_conf\<lparr>wc_kv_cache_layout :=
         \<lparr> lay_layerwise = True, lay_pp_size = 1, lay_num_layers = 2, base_ptrs = [[4096], [8192]],
           buffer_sizes = [[128], [128]], tensor_size_lists = [[32], [32]], block_stride_lists = [[32], [32]] \<rparr>\<rparr>,
       ly_layer_name_to_id = [(''l0'', 0), (''l1'', 1)], ly_layer_ids = [0, 1], ly_first_layer_id = 0 \<rparr>"

text \<open>What a load operation leaves alone, and what only grows.\<close>

definition load_step :: "layerwise \<times> trace \<Rightarrow> layerwise \<times> trace \<Rightarrow> bool" where
  "load_step a b \<longleftrightarrow>
     lw_request_data (fst b) = lw_request_data (fst a) \<and>
     lw_connector_metadata (fst b) = lw_connector_metadata (fst a) \<and>
     lw_need_load (fst b) = lw_need_load (fst a) \<and>
     lw_failure_req_ids (fst a) \<subseteq> lw_failure_req_ids (fst b) \<and>
     dump_side_same (lw_worker (fst a), snd a) (lw_worker (fst b), snd b) \<and>
     reports_grow (lw_worker (fst a), snd a) (lw_worker (fst b), snd b)"

section \<open>Facts about the loads\<close>

lemma load_step_refl [simp]: "load_step a a"
  by (simp add: load_step_def)

lemma load_step_trans: "load_step a b \<Longrightarrow> load_step b c \<Longrightarrow> load_step a c"
  unfolding load_step_def by (metis (no_types, lifting) dump_side_trans order_trans reports_grow_trans)

lemma reports_grow_prefix: "reports_grow (wk, t) (wk', t') \<Longrightarrow> set t \<subseteq> set t'"
  by (auto simp: reports_grow_def)

lemma accepted_later: "layer_accepted K data l q tk t \<Longrightarrow> set t \<subseteq> set t' \<Longrightarrow> layer_accepted K data l q tk t'"
  unfolding layer_accepted_def by blast

lemma fail_layer_load_outcome:
  assumes "fail_layer_load metric plans q lw t = (r, lw', t')" "map_of plans q = Some request"
  shows "r = Inr () \<and> load_step (lw, t) (lw', t') \<and> lw_load_tasks lw' = lw_load_tasks lw \<and>
    lw_failure_req_ids lw' = insert q (lw_failure_req_ids lw) \<and> load_reported q request (lw_worker lw')"
proof -
  obtain wk t1 where e: "record_load_error metric (snd (dm_load_block_ids request) @ snd (dm_dump_block_ids request))
    (lw_worker lw) t = (wk, t1)" by (rule prod.exhaust)
  have out: "r = Inr ()" "t' = t1" "lw' = lw\<lparr>lw_worker := mark_failed q wk, lw_failure_req_ids := insert q (lw_failure_req_ids lw)\<rparr>"
    using assms e by (auto simp: fail_layer_load_def dict_get_def)
  from error_reports [OF e, of q] record_load_error_frame [OF e] show ?thesis
    unfolding out by (auto simp: load_step_def)
qed

lemma failures_reported_step:
  assumes "failures_reported plans lw" "load_step (lw, t) (lw', t')"
    and "\<And>q request. q \<in> lw_failure_req_ids lw' - lw_failure_req_ids lw \<Longrightarrow> map_of plans q = Some request \<Longrightarrow>
      load_reported q request (lw_worker lw')"
  shows "failures_reported plans lw'"
  unfolding failures_reported_def
proof (intro ballI allI impI)
  fix q request
  assume q: "q \<in> lw_failure_req_ids lw'" "map_of plans q = Some request"
  show "load_reported q request (lw_worker lw')"
  proof (cases "q \<in> lw_failure_req_ids lw")
    case True
    then have "load_reported q request (lw_worker lw)" using assms(1) q(2) by (auto simp: failures_reported_def)
    moreover have "reports_grow (lw_worker lw, t) (lw_worker lw', t')" using assms(2) by (simp add: load_step_def)
    ultimately show ?thesis by (rule reported_kept)
  qed (use assms(3) q in blast)
qed

lemma submit_load_event:
  assumes "submit_load W store ctx ids shards ptrs d m t = (Inr tk, m', t')"
  shows "\<exists>opt. LoadData store ids shards ptrs opt (Inr tk) \<in> set t'"
proof -
  have "t' = t @ [LoadData store ids shards ptrs (if w_supports_distributed W store then Some d else None) (Inr tk)]"
    using assms by (auto simp: submit_load_def store_load_data_def Let_def split: sum.splits)
  then show ?thesis by auto
qed

text \<open>One request of a layer: skipped, submitted, or failed.\<close>

lemma submit_layer_cases:
  assumes "submit_layer_loads W K plans l row ((q, us, ids, rows) # rest) submitted lw t = out"
    and "map_of plans q = Some request"
  obtains (skipped) "q \<in> lw_failure_req_ids lw" "submit_layer_loads W K plans l row rest submitted lw t = out"
  | (submitted) tk ptrs opt lw1 t1 where "q \<notin> lw_failure_req_ids lw"
      "submit_layer_loads W K plans l row rest True (put_load_task l q tk lw1) t1 = out"
      "load_step (lw, t) (lw1, t1)" "lw_load_tasks lw1 = lw_load_tasks lw" "lw_failure_req_ids lw1 = lw_failure_req_ids lw"
      "LoadData (wc_store K) ids (replicate (length us) l) ptrs opt (Inr tk) \<in> set t1"
  | (failed) lw1 t1 where "q \<notin> lw_failure_req_ids lw" "submit_layer_loads W K plans l row rest submitted lw1 t1 = out"
      "load_step (lw, t) (lw1, t1)" "lw_load_tasks lw1 = lw_load_tasks lw"
      "lw_failure_req_ids lw1 = insert q (lw_failure_req_ids lw)" "load_reported q request (lw_worker lw1)"
proof -
  let ?m = "wk_rank_consistency (lw_worker lw)"
  let ?sub = "case py_nth rows row of Inl e \<Rightarrow> (Inl e, ?m, t)
    | Inr layer_ptrs \<Rightarrow> submit_load W (wc_store K) [(q, us)] ids (replicate (length us) l) layer_ptrs (wc_is_mla K) ?m t"
  obtain r m t1 where s: "?sub = (r, m, t1)" by (rule prod_cases3)
  let ?lw = "lw\<lparr>lw_worker := (lw_worker lw)\<lparr>wk_rank_consistency := m\<rparr>\<rparr>"
  have frame: "open_dumps m = open_dumps ?m \<and> quiet t t1"
    using s submit_load_frame by (auto split: sum.splits)
  have "reports_grow (lw_worker lw, t) ((lw_worker lw)\<lparr>wk_rank_consistency := m\<rparr>, t1)"
    using s by (auto simp: reports_grow_def submit_load_def store_load_data_def Let_def split: sum.splits prod.splits)
  with frame have step: "load_step (lw, t) (?lw, t1)" by (simp add: load_step_def dump_side_manager)
  show thesis
  proof (cases "q \<in> lw_failure_req_ids lw")
    case True
    with assms(1) show ?thesis by (intro skipped) simp_all
  next
    case False
    show ?thesis
    proof (cases r)
      case (Inl e)
      obtain r2 lw2 t2 where f: "fail_layer_load ''connector_load_submit_errors_total'' plans q ?lw t1 = (r2, lw2, t2)"
        by (rule prod_cases3)
      note fo = fail_layer_load_outcome [OF f assms(2)]
      have "submit_layer_loads W K plans l row rest submitted lw2 t2 = out"
        using assms(1) False s Inl f fo by simp
      with fo load_step_trans [OF step] False show ?thesis by (intro failed [of lw2 t2]) simp_all
    next
      case (Inr tk)
      then have "\<exists>layer_ptrs. submit_load W (wc_store K) [(q, us)] ids (replicate (length us) l) layer_ptrs (wc_is_mla K) ?m t = (Inr tk, m, t1)"
        using s by (auto split: sum.splits)
      with submit_load_event obtain layer_ptrs opt where "LoadData (wc_store K) ids (replicate (length us) l) layer_ptrs opt (Inr tk) \<in> set t1"
        by blast
      with assms(1) False s Inr step show ?thesis by (intro submitted [of tk ?lw t1 layer_ptrs opt]) simp_all
    qed
  qed
qed

lemma tasks_at_cases: "lw_load_tasks lw = tasks_at l d \<Longrightarrow>
    map_of (lw_load_tasks lw) l = (if d = [] then None else Some d) \<and> AList.delete l (lw_load_tasks lw) = []"
  by (simp add: tasks_at_def)

lemma update_append: "q \<notin> fst ` set d \<Longrightarrow> AList.update q v d = d @ [(q, v)]"
  by (induction d) auto

lemma put_load_task_outcome:
  assumes "lw_load_tasks lw = tasks_at l d" "q \<notin> fst ` set d"
  shows "lw_load_tasks (put_load_task l q tk lw) = tasks_at l (d @ [(q, tk)])"
    and "load_step (lw, t) (put_load_task l q tk lw, t)"
    and "lw_failure_req_ids (put_load_task l q tk lw) = lw_failure_req_ids lw"
proof -
  from tasks_at_cases [OF assms(1)] assms(1) show "lw_load_tasks (put_load_task l q tk lw) = tasks_at l (d @ [(q, tk)])"
    by (auto simp: put_load_task_def tasks_at_def update_append [OF assms(2)])
qed (simp_all add: put_load_task_def load_step_def)

text \<open>Launching a layer: every request that has not failed is in flight afterwards.\<close>

lemma submit_layer_outcome:
  assumes "submit_layer_loads W K plans l row rest submitted lw t = (r, lw', t')"
    and "distinct (map fst rest)" "fst ` set rest \<subseteq> dom (map_of plans)" "set rest \<subseteq> set (lw_request_data lw)"
    and "lw_load_tasks lw = tasks_at l d" "distinct (map fst d)" "fst ` set d \<inter> fst ` set rest = {}"
    and "failures_reported plans lw"
  shows "(\<exists>b. r = Inr b) \<and> load_step (lw, t) (lw', t') \<and> failures_reported plans lw' \<and>
    lw_failure_req_ids lw' \<subseteq> lw_failure_req_ids lw \<union> fst ` set rest \<and>
    (\<exists>d'. lw_load_tasks lw' = tasks_at l (d @ d') \<and> distinct (map fst (d @ d')) \<and>
      fst ` set d' = fst ` set rest - lw_failure_req_ids lw' \<and>
      (\<forall>(q, tk) \<in> set d'. layer_accepted K (lw_request_data lw) l q tk t'))"
  using assms
proof (induction rest arbitrary: submitted lw t d)
  case Nil
  then show ?case by auto
next
  case (Cons a rest)
  obtain q us ids rows where a: "a = (q, us, ids, rows)" by (cases a)
  obtain request where req: "map_of plans q = Some request" using Cons.prems(3) a by auto
  have rest: "distinct (map fst rest)" "fst ` set rest \<subseteq> dom (map_of plans)" "q \<notin> fst ` set rest"
    and q: "q \<notin> fst ` set d" and disj: "fst ` set d \<inter> fst ` set rest = {}"
    and mem: "(q, us, ids, rows) \<in> set (lw_request_data lw)" and rdata: "set rest \<subseteq> set (lw_request_data lw)"
    using Cons.prems(2,3,4,7) a by auto
  have keys: "fst ` set (a # rest) = insert q (fst ` set rest)" using a by simp
  from Cons.prems(1) a have run: "submit_layer_loads W K plans l row ((q, us, ids, rows) # rest) submitted lw t = (r, lw', t')" by simp
  show ?case
    using run req
  proof (cases rule: submit_layer_cases)
    case skipped
    note IH = Cons.IH [OF skipped(2) rest(1,2) rdata Cons.prems(5,6) disj Cons.prems(8)]
    then have "q \<in> lw_failure_req_ids lw'" using skipped(1) by (auto simp: load_step_def)
    with IH show ?thesis unfolding keys by auto
  next
    case (submitted tk ptrs opt lw1 t1)
    have tasks: "lw_load_tasks lw1 = tasks_at l d" using submitted(4) Cons.prems(5) by simp
    note put = put_load_task_outcome [OF tasks q]
    let ?lw = "put_load_task l q tk lw1" and ?d = "d @ [(q, tk)]"
    have step: "load_step (lw, t) (?lw, t1)" using load_step_trans [OF submitted(3) put(2)] .
    have data: "lw_request_data ?lw = lw_request_data lw" and fails: "lw_failure_req_ids ?lw = lw_failure_req_ids lw"
      using step put(3) submitted(5) by (simp_all add: load_step_def)
    have rep: "failures_reported plans ?lw"
      using failures_reported_step [OF Cons.prems(8) step] fails by blast
    have d: "distinct (map fst ?d)" "fst ` set ?d \<inter> fst ` set rest = {}" using q rest(3) disj Cons.prems(6) by auto
    from rdata have rdata': "set rest \<subseteq> set (lw_request_data ?lw)" by (simp only: data)
    note IH = Cons.IH [OF submitted(2) rest(1,2) rdata' put(1) d rep, unfolded data fails]
    then have g: "load_step (?lw, t1) (lw', t')" and sub: "lw_failure_req_ids lw' \<subseteq> lw_failure_req_ids lw \<union> fst ` set rest"
      and rep': "failures_reported plans lw'" "\<exists>b. r = Inr b" by blast+
    obtain d' where d': "lw_load_tasks lw' = tasks_at l (?d @ d')" "distinct (map fst (?d @ d'))"
      "fst ` set d' = fst ` set rest - lw_failure_req_ids lw'"
      "\<forall>(q, tk) \<in> set d'. layer_accepted K (lw_request_data lw) l q tk t'" using IH by blast
    have "set t1 \<subseteq> set t'" using g by (auto simp: load_step_def reports_grow_def)
    then have acc: "layer_accepted K (lw_request_data lw) l q tk t'"
      using submitted(6) mem unfolding layer_accepted_def by blast
    have "q \<notin> lw_failure_req_ids lw'" using sub submitted(1) rest(3) by blast
    then have "fst ` set ((q, tk) # d') = fst ` set (a # rest) - lw_failure_req_ids lw'" using d'(3) keys by auto
    moreover have "\<forall>(q, tk) \<in> set ((q, tk) # d'). layer_accepted K (lw_request_data lw) l q tk t'" using d'(4) acc by simp
    moreover have "lw_load_tasks lw' = tasks_at l (d @ (q, tk) # d')" "distinct (map fst (d @ (q, tk) # d'))" using d'(1,2) by simp_all
    ultimately show ?thesis using load_step_trans [OF step g] rep' sub keys by blast
  next
    case (failed lw1 t1)
    have data: "lw_request_data lw1 = lw_request_data lw" using failed(3) by (simp add: load_step_def)
    have rep: "failures_reported plans lw1"
      by (rule failures_reported_step [OF Cons.prems(8) failed(3)]) (use failed(5,6) req in auto)
    have tasks: "lw_load_tasks lw1 = tasks_at l d" using failed(4) Cons.prems(5) by simp
    from rdata have rdata': "set rest \<subseteq> set (lw_request_data lw1)" by (simp only: data)
    note IH = Cons.IH [OF failed(2) rest(1,2) rdata' tasks Cons.prems(6) disj rep, unfolded data]
    then have g: "load_step (lw1, t1) (lw', t')" by blast
    then have "q \<in> lw_failure_req_ids lw'" using failed(5) by (auto simp: load_step_def)
    then have "fst ` set (a # rest) - lw_failure_req_ids lw' = fst ` set rest - lw_failure_req_ids lw'" using keys by auto
    with IH load_step_trans [OF failed(3) g] failed(5) keys show ?thesis by auto
  qed
qed

lemma launch_outcome:
  assumes "submit_request_load_tasks_for_layer W K l row plans start lw t = (r, lw', t')"
    and "distinct (map fst (lw_request_data lw))" "fst ` set (lw_request_data lw) \<subseteq> fst ` set plans"
    and "lw_load_tasks lw = []" "failures_reported plans lw"
  shows "r = Inr () \<and> load_step (lw, t) (lw', t') \<and> failures_reported plans lw' \<and>
    (\<exists>d. lw_load_tasks lw' = tasks_at l d \<and> distinct (map fst d) \<and>
      fst ` set d = fst ` set (lw_request_data lw) - lw_failure_req_ids lw' \<and>
      (\<forall>(q, tk) \<in> set d. layer_accepted K (lw_request_data lw) l q tk t'))"
proof -
  obtain s t1 where s: "(case start of None \<Rightarrow> perf_counter W t | Some s \<Rightarrow> (s, t)) = (s, t1)" by (rule prod.exhaust)
  then have "t1 = t \<or> t1 = t @ [PerfCounter]" by (auto simp: perf_counter_def split: option.splits)
  then have st: "load_step (lw, t) (lw, t1)" by (auto simp: load_step_def dump_side_same_def reports_grow_def)
  obtain r1 lw1 t2 where sub: "submit_layer_loads W K plans l row (lw_request_data lw) False lw t1 = (r1, lw1, t2)" by (rule prod_cases3)
  have "fst ` set (lw_request_data lw) \<subseteq> dom (map_of plans)" using assms(3) by (simp add: dom_map_of_conv_image_fst)
  from submit_layer_outcome [OF sub assms(2) this order_refl, of "[]"] assms(4,5)
  have o: "\<exists>b. r1 = Inr b" "load_step (lw, t1) (lw1, t2)" "failures_reported plans lw1"
    "\<exists>d. lw_load_tasks lw1 = tasks_at l d \<and> distinct (map fst d) \<and>
      fst ` set d = fst ` set (lw_request_data lw) - lw_failure_req_ids lw1 \<and>
      (\<forall>(q, tk) \<in> set d. layer_accepted K (lw_request_data lw) l q tk t2)" by (auto simp: tasks_at_def)
  from o(1) obtain b where b: "r1 = Inr b" ..
  have out: "r = Inr ()" "t' = t2"
    "lw' = (if b then lw1\<lparr>lw_load_start_by_layer := AList.update l s (lw_load_start_by_layer lw1)\<rparr> else lw1)"
    using assms(1) unfolding submit_request_load_tasks_for_layer_def s prod.case sub b by auto
  have same: "lw_load_tasks lw' = lw_load_tasks lw1" "lw_failure_req_ids lw' = lw_failure_req_ids lw1"
    "lw_worker lw' = lw_worker lw1" unfolding out(3) by simp_all
  have "load_step (lw1, t2) (lw', t')" unfolding out by (simp add: load_step_def)
  from load_step_trans [OF load_step_trans [OF st o(2)] this] o(3,4) out(1,2) same show ?thesis
    by (simp add: failures_reported_def)
qed

text \<open>Waiting for a layer: every task was waited for with success or its request failed.\<close>

lemma wait_layer_outcome:
  assumes "wait_layer_tasks W K plans d lw t = (r, lw', t')" "fst ` set d \<subseteq> dom (map_of plans)" "failures_reported plans lw"
  shows "r = Inr () \<and> load_step (lw, t) (lw', t') \<and> failures_reported plans lw' \<and> lw_load_tasks lw' = lw_load_tasks lw \<and>
    lw_failure_req_ids lw' \<subseteq> lw_failure_req_ids lw \<union> fst ` set d \<and>
    (\<forall>(q, tk) \<in> set d. load_waited tk (events_since t t') \<or> q \<in> lw_failure_req_ids lw')"
  using assms
proof (induction d arbitrary: lw t)
  case (Cons a rest)
  obtain q tk where a: "a = (q, tk)" by (cases a)
  obtain request where req: "map_of plans q = Some request" using Cons.prems(2) a by auto
  have rest: "fst ` set rest \<subseteq> dom (map_of plans)" using Cons.prems(2) by simp
  obtain r1 m t1 where w: "wait_load W tk None (wk_rank_consistency (lw_worker lw)) t = (r1, m, t1)" by (rule prod_cases3)
  let ?lw = "lw\<lparr>lw_worker := (lw_worker lw)\<lparr>wk_rank_consistency := m\<rparr>\<rparr>"
  have st: "load_step (lw, t) (?lw, t1)"
    using wait_load_outcome(1) [OF w, of "lw_worker lw"] wait_load_frame [OF w] by (simp add: load_step_def dump_side_manager)
  have step: ?case
    if tail: "wait_layer_tasks W K plans rest lw2 t2 = (r, lw', t')" and g: "load_step (lw, t) (lw2, t2)"
      and same: "lw_load_tasks lw2 = lw_load_tasks lw" "lw_failure_req_ids lw2 \<subseteq> insert q (lw_failure_req_ids lw)"
      and rep: "failures_reported plans lw2"
      and one: "load_waited tk (events_since t t2) \<or> q \<in> lw_failure_req_ids lw2" for lw2 t2
  proof -
    note IH = Cons.IH [OF tail rest rep]
    then have g2: "load_step (lw2, t2) (lw', t')" by blast
    have since: "events_since t t2 \<subseteq> events_since t t'" "events_since t2 t' \<subseteq> events_since t t'"
      using g g2 since_mono unfolding load_step_def fst_conv snd_conv by blast+
    have fail: "lw_failure_req_ids lw2 \<subseteq> lw_failure_req_ids lw'" using g2 by (simp add: load_step_def)
    have "load_waited tk' (events_since t t') \<or> q' \<in> lw_failure_req_ids lw'" if "(q', tk') \<in> set rest" for q' tk'
      using IH that waited_mono [OF _ since(2)] by blast
    moreover have "load_waited tk (events_since t t') \<or> q \<in> lw_failure_req_ids lw'"
      using one waited_mono [OF _ since(1)] fail by blast
    ultimately have "\<forall>(q, tk) \<in> set (a # rest). load_waited tk (events_since t t') \<or> q \<in> lw_failure_req_ids lw'"
      by (rule plans_cons [OF a])
    with IH load_step_trans [OF g g2] same a show ?thesis by auto
  qed
  show ?case
  proof (cases r1)
    case (Inl e)
    obtain r2 lw2 t2 where f: "fail_layer_load ''connector_load_wait_errors_total'' plans q ?lw t1 = (r2, lw2, t2)" by (rule prod_cases3)
    note fo = fail_layer_load_outcome [OF f req]
    show ?thesis
    proof (rule step [of lw2 t2])
      show "wait_layer_tasks W K plans rest lw2 t2 = (r, lw', t')" using Cons.prems(1) a w Inl f fo by (simp add: Let_def)
      show g: "load_step (lw, t) (lw2, t2)" using load_step_trans [OF st] fo by blast
      show "failures_reported plans lw2" by (rule failures_reported_step [OF Cons.prems(3) g]) (use fo req in auto)
    qed (use fo in auto)
  next
    case (Inr u)
    show ?thesis
    proof (rule step)
      show "wait_layer_tasks W K plans rest (?lw\<lparr>lw_load_bytes := lw_load_bytes ?lw +
          int (length (fst (dm_load_block_ids request))) * shard_size (wc_kv_cache_layout K)\<rparr>) t1 = (r, lw', t')"
        using Cons.prems(1) a w Inr req by (simp add: Let_def dict_get_def)
      show g: "load_step (lw, t) (?lw\<lparr>lw_load_bytes := lw_load_bytes ?lw +
          int (length (fst (dm_load_block_ids request))) * shard_size (wc_kv_cache_layout K)\<rparr>, t1)"
        using st by (simp add: load_step_def)
      show "failures_reported plans (?lw\<lparr>lw_load_bytes := lw_load_bytes ?lw +
          int (length (fst (dm_load_block_ids request))) * shard_size (wc_kv_cache_layout K)\<rparr>)"
        by (rule failures_reported_step [OF Cons.prems(3) g]) simp
    qed (use wait_load_outcome(2) [OF w Inr] in auto)
  qed
qed (simp add: events_since_def)

lemma prepare_loads_outcome:
  assumes "prepare_loads K plans lw = (Inr u, lw')"
  shows "lw' = lw\<lparr>lw_need_load := lw_need_load lw \<or> loading_requests plans \<noteq> {}, lw_request_data := lw_request_data lw'\<rparr> \<and>
    (\<exists>data. lw_request_data lw' = lw_request_data lw @ data \<and>
      map fst data = map fst (filter (\<lambda>(_, request). fst (dm_load_block_ids request) \<noteq> []) plans))"
  using assms
proof (induction plans arbitrary: lw)
  case Nil
  then show ?case by (simp add: loading_requests_def)
next
  case (Cons a plans)
  obtain q request where a: "a = (q, request)" by (cases a)
  show ?case
  proof (cases "fst (dm_load_block_ids request) = []")
    case True
    then have "loading_requests (a # plans) = loading_requests plans" using a by (auto simp: loading_requests_def)
    with Cons True a show ?thesis by simp
  next
    case False
    then have all: "loading_requests (a # plans) \<noteq> {}" using a by (auto simp: loading_requests_def)
    obtain ptrs where p: "layer_first_addrs K (snd (dm_load_block_ids request)) = Inr ptrs"
      using Cons.prems a False by (cases "layer_first_addrs K (snd (dm_load_block_ids request))") (auto simp: Let_def)
    let ?e = "(q, fst (dm_load_block_ids request), layer_store_ids K (fst (dm_load_block_ids request)), ptrs)"
    have run: "prepare_loads K plans (lw\<lparr>lw_need_load := True, lw_request_data := lw_request_data lw @ [?e]\<rparr>) = (Inr u, lw')"
      using Cons.prems a False p by (simp add: Let_def)
    from Cons.IH [OF run] obtain data where d: "lw_request_data lw' = (lw_request_data lw @ [?e]) @ data"
      "map fst data = map fst (filter (\<lambda>(_, request). fst (dm_load_block_ids request) \<noteq> []) plans)"
      and lw': "lw' = lw\<lparr>lw_need_load := True, lw_request_data := lw_request_data lw'\<rparr>" by auto
    have "\<exists>data. lw_request_data lw' = lw_request_data lw @ data \<and>
      map fst data = map fst (filter (\<lambda>(_, request). fst (dm_load_block_ids request) \<noteq> []) (a # plans))"
      using d a False by (intro exI [of _ "?e # data"]) simp
    with lw' all show ?thesis by simp
  qed
qed

lemma loading_keys:
  "fst ` set (filter (\<lambda>(_, request). fst (dm_load_block_ids request) \<noteq> []) plans) = loading_requests plans"
  by (force simp: loading_requests_def)

lemma pipeline_tasks_at:
  "lw_load_tasks lw = tasks_at l d \<Longrightarrow> pipeline_of lw = (if fst ` set d = {} then Landed else Flight l (fst ` set d))"
  by (simp add: pipeline_of_def tasks_at_def)

text \<open>The state right after the first layer is launched.\<close>

lemma batch_starts:
  assumes "lw_start_load_kv W L (bind_connector_metadata metadata lw) t = (Inr u, lw', t')"
    and "ly_first_layer_id L \<in> set (ly_layer_ids L)" "dict_wf (cm_request_meta metadata)"
  shows "batch_ok L lw' t' \<and> pipeline_of lw' =
    (let R = loading_requests (cm_request_meta metadata) - lw_failure_req_ids lw'
     in if R = {} then Landed else Flight (ly_first_layer_id L) R)"
proof -
  let ?b = "bind_connector_metadata metadata lw" and ?plans = "cm_request_meta metadata" and ?K = "ly_worker_conf L"
  obtain s t0 where s: "perf_counter W t = (s, t0)" by (rule prod.exhaust)
  obtain r1 lw1 where p: "prepare_loads ?K ?plans ?b = (r1, lw1)" by (rule prod.exhaust)
  have b: "lw_request_data ?b = []" "lw_need_load ?b = False" "lw_load_tasks ?b = []" "lw_failure_req_ids ?b = {}"
    "lw_connector_metadata ?b = Some metadata" by (simp_all add: bind_connector_metadata_def)
  note run = assms(1) [unfolded lw_start_load_kv_def s prod.case b(5) option.case p]
  obtain v where "r1 = Inr v" using run by (cases r1) auto
  note p = p [unfolded this]
  note o = prepare_loads_outcome [OF p] and run = run [unfolded \<open>r1 = Inr v\<close> prod.case sum.case]
  obtain data where data: "lw_request_data lw1 = data" "map fst data = map fst (filter (\<lambda>(_, request). fst (dm_load_block_ids request) \<noteq> []) ?plans)"
    using o b(1) by auto
  have l1: "lw_need_load lw1 = (loading_requests ?plans \<noteq> {})" "lw_load_tasks lw1 = []" "lw_failure_req_ids lw1 = {}"
    "lw_connector_metadata lw1 = Some metadata"
    using arg_cong [OF conjunct1 [OF o], of lw_need_load] arg_cong [OF conjunct1 [OF o], of lw_load_tasks]
      arg_cong [OF conjunct1 [OF o], of lw_failure_req_ids] arg_cong [OF conjunct1 [OF o], of lw_connector_metadata] b
    by simp_all
  have image: "fst ` set data = fst ` set (filter (\<lambda>(_, request). fst (dm_load_block_ids request) \<noteq> []) ?plans)"
    using arg_cong [OF data(2), of set] by (simp only: set_map)
  have keys: "fst ` set data = loading_requests ?plans" unfolding image by (rule loading_keys)
  have dist: "distinct (map fst data)" using data(2) assms(3) by (simp add: dict_wf_def distinct_map_filter)
  have sub: "fst ` set data \<subseteq> fst ` set ?plans" unfolding image by (intro image_mono filter_is_subset)
  have rep: "failures_reported ?plans lw1" using l1(3) by (simp add: failures_reported_def)
  show ?thesis
  proof (cases "loading_requests ?plans = {}")
    case True
    then have out: "lw' = lw1" "t' = t0" using run l1(1) by auto
    have "flight_ok L lw1 t0" unfolding flight_ok_def l1(2) by (intro exI [of _ 0] exI [of _ "[]"]) (simp add: tasks_at_def)
    with True out l1 dist sub rep data(1) show ?thesis by (auto simp: batch_ok_def pipeline_of_def)
  next
    case False
    have run: "submit_request_load_tasks_for_layer W ?K (ly_first_layer_id L) 0 ?plans (Some s) lw1 t0 = (Inr u, lw', t')"
      using run l1(1) False by simp
    from launch_outcome [OF run] dist sub l1(2) rep data(1) obtain d where
      st: "load_step (lw1, t0) (lw', t')" and rep': "failures_reported ?plans lw'" and
      d: "lw_load_tasks lw' = tasks_at (ly_first_layer_id L) d" "distinct (map fst d)"
      "fst ` set d = fst ` set data - lw_failure_req_ids lw'"
      "\<forall>(q, tk) \<in> set d. layer_accepted ?K data (ly_first_layer_id L) q tk t'" by auto
    have same: "lw_request_data lw' = data" "lw_connector_metadata lw' = Some metadata" "lw_need_load lw'"
      using st data(1) l1 False by (simp_all add: load_step_def)
    have "flight_ok L lw' t'" unfolding flight_ok_def same using d assms(2) by blast
    with same dist sub rep' have "batch_ok L lw' t'" by (auto simp: batch_ok_def)
    moreover note pipeline_tasks_at [OF d(1), unfolded d(3) keys]
    ultimately show ?thesis by (simp add: Let_def)
  qed
qed

lemma after_layer_outcome:
  assumes "after_layer_load W L plans l lw t = (r, lw', t')"
    and "distinct (map fst (lw_request_data lw))" "fst ` set (lw_request_data lw) \<subseteq> fst ` set plans"
    and "lw_load_tasks lw = []" "failures_reported plans lw"
  shows "r = Inr () \<and> load_step (lw, t) (lw', t') \<and> failures_reported plans lw' \<and>
    (\<exists>d. lw_load_tasks lw' = tasks_at (l + 1) d \<and> distinct (map fst d) \<and>
      fst ` set d = (if l + 1 \<in> set (ly_layer_ids L) then fst ` set (lw_request_data lw) - lw_failure_req_ids lw' else {}) \<and>
      (\<forall>(q, tk) \<in> set d. layer_accepted (ly_worker_conf L) (lw_request_data lw) (l + 1) q tk t'))"
proof -
  obtain e t1 where p: "perf_counter W t = (e, t1)" by (rule prod.exhaust)
  obtain b lw1 t2 where rec: "record_layerwise_load_duration l e lw t1 = (b, lw1, t2)" by (rule prod_cases3)
  have s1: "load_step (lw, t) (lw, t1)" using p by (auto simp: perf_counter_def load_step_def dump_side_same_def reports_grow_def)
  have "load_step (lw, t1) (lw1, t2) \<and> lw_load_tasks lw1 = lw_load_tasks lw \<and> lw_failure_req_ids lw1 = lw_failure_req_ids lw \<and>
    lw_worker lw1 = lw_worker lw"
    using rec by (auto simp: record_layerwise_load_duration_def Let_def update_stats_def load_step_def dump_side_same_def
        reports_grow_def split: option.splits)
  then have s: "load_step (lw, t) (lw1, t2)" and same: "lw_load_tasks lw1 = lw_load_tasks lw" "lw_failure_req_ids lw1 = lw_failure_req_ids lw"
    "lw_worker lw1 = lw_worker lw" using load_step_trans [OF s1] by blast+
  have data: "lw_request_data lw1 = lw_request_data lw" using s by (simp add: load_step_def)
  have rep: "failures_reported plans lw1" using assms(5) same by (simp add: failures_reported_def)
  note run = assms(1) [unfolded after_layer_load_def p prod.case rec Let_def]
  show ?thesis
  proof (cases "l + 1 \<in> set (ly_layer_ids L)")
    case True
    then have sub: "submit_request_load_tasks_for_layer W (ly_worker_conf L) (l + 1) (l + 1 - ly_first_layer_id L) plans None lw1 t2 = (r, lw', t')"
      using run by simp
    from launch_outcome [OF sub] assms(2,3,4) same rep data have "r = Inr ()" "load_step (lw1, t2) (lw', t')" "failures_reported plans lw'"
      "\<exists>d. lw_load_tasks lw' = tasks_at (l + 1) d \<and> distinct (map fst d) \<and>
        fst ` set d = fst ` set (lw_request_data lw) - lw_failure_req_ids lw' \<and>
        (\<forall>(q, tk) \<in> set d. layer_accepted (ly_worker_conf L) (lw_request_data lw) (l + 1) q tk t')" by simp_all
    with True load_step_trans [OF s] show ?thesis by simp
  next
    case False
    then have out: "r = Inr ()" "load_step (lw1, t2) (lw', t')" "lw_load_tasks lw' = lw_load_tasks lw1" "lw_worker lw' = lw_worker lw1"
      "lw_failure_req_ids lw' = lw_failure_req_ids lw1"
      using run by (auto simp: load_step_def update_stats_def dump_side_same_def reports_grow_def split: if_splits)
    have "failures_reported plans lw'" using rep out(4,5) by (simp add: failures_reported_def)
    moreover have "lw_load_tasks lw' = tasks_at (l + 1) []" using out(3) same(1) assms(4) by (simp add: tasks_at_def)
    ultimately show ?thesis using False out(1) load_step_trans [OF s out(2)] by force
  qed
qed

text \<open>A visit of a layer that is not in flight.\<close>

lemma idle_visit:
  assumes "wait_for_layer_load W L name lw t = (r, lw', t')" "batch_ok L lw t"
    and "map_of (ly_layer_name_to_id L) name = Some l" "\<forall>R. pipeline_of lw \<noteq> Flight l R"
  shows "r = Inr () \<and> lw' = lw \<and> t' = t"
proof -
  from assms(2) obtain k d where d: "lw_load_tasks lw = tasks_at k d" "lw_need_load lw \<or> lw_load_tasks lw = []"
    by (auto simp: batch_ok_def flight_ok_def)
  have "d = [] \<or> k \<noteq> l" using assms(4) d(1) by (auto simp: pipeline_of_def tasks_at_def)
  then have none: "map_of (lw_load_tasks lw) l = None" "AList.delete l (lw_load_tasks lw) = lw_load_tasks lw"
    using d(1) by (auto simp: tasks_at_def)
  obtain metadata where "lw_connector_metadata lw = Some metadata" using assms(2) by (auto simp: batch_ok_def)
  with assms(1,3) none show ?thesis
    by (cases "lw_need_load lw") (simp_all add: wait_for_layer_load_def dict_get_def Let_def)
qed

lemma flight_visit:
  assumes "wait_for_layer_load W L name lw t = (r, lw', t')" "batch_ok L lw t"
    and "map_of (ly_layer_name_to_id L) name = Some l" "pipeline_of lw = Flight l R"
  shows "r = Inr () \<and> batch_ok L lw' t' \<and>
    pipeline_of lw' = visit (set (ly_layer_ids L)) l (lw_failure_req_ids lw') (pipeline_of lw) \<and>
    (\<forall>q \<in> R - lw_failure_req_ids lw'. \<exists>tk. layer_accepted (ly_worker_conf L) (lw_request_data lw) l q tk t \<and>
       load_waited tk (events_since t t'))"
proof -
  let ?K = "ly_worker_conf L" and ?data = "lw_request_data lw"
  from assms(2) obtain metadata where md: "lw_connector_metadata lw = Some metadata" "distinct (map fst ?data)"
    "fst ` set ?data \<subseteq> fst ` set (cm_request_meta metadata)" "failures_reported (cm_request_meta metadata) lw"
    unfolding batch_ok_def by blast
  let ?plans = "cm_request_meta metadata"
  from assms(2) obtain k d where kd: "lw_load_tasks lw = tasks_at k d" "distinct (map fst d)" "lw_need_load lw \<or> lw_load_tasks lw = []"
    "d \<noteq> [] \<longrightarrow> k \<in> set (ly_layer_ids L) \<and> fst ` set d = fst ` set ?data - lw_failure_req_ids lw"
    "\<forall>(q, tk) \<in> set d. layer_accepted ?K ?data k q tk t"
    unfolding batch_ok_def flight_ok_def by blast
  from assms(4) kd(1) have k: "k = l" "d \<noteq> []" "R = fst ` set d" by (auto simp: pipeline_of_def tasks_at_def split: if_splits)
  with kd have tasks: "lw_load_tasks lw = [(l, d)]" "lw_need_load lw" and keys: "fst ` set d = fst ` set ?data - lw_failure_req_ids lw"
    by (auto simp: tasks_at_def)
  let ?lw0 = "lw\<lparr>lw_load_tasks := []\<rparr>"
  obtain r1 lw1 t1 where w: "wait_layer_tasks W ?K ?plans d ?lw0 t = (r1, lw1, t1)" by (rule prod_cases3)
  have "fst ` set d \<subseteq> dom (map_of ?plans)" using keys md(3) by (auto simp: dom_map_of_conv_image_fst)
  moreover have "failures_reported ?plans ?lw0" using md(4) by (simp add: failures_reported_def)
  ultimately have wo: "r1 = Inr ()" "load_step (?lw0, t) (lw1, t1)" "failures_reported ?plans lw1" "lw_load_tasks lw1 = []"
    "\<forall>(q, tk) \<in> set d. load_waited tk (events_since t t1) \<or> q \<in> lw_failure_req_ids lw1"
    using wait_layer_outcome [OF w] by simp_all
  have run: "after_layer_load W L ?plans l lw1 t1 = (r, lw', t')"
    using assms(1,3) md(1) tasks k(2) w wo(1) by (simp add: wait_for_layer_load_def dict_get_def Let_def)
  have data1: "lw_request_data lw1 = ?data" using wo(2) by (simp add: load_step_def)
  from after_layer_outcome [OF run] md(2,3) wo(3,4) data1 obtain d' where
    ao: "r = Inr ()" "load_step (lw1, t1) (lw', t')" "failures_reported ?plans lw'" and
    d': "lw_load_tasks lw' = tasks_at (l + 1) d'" "distinct (map fst d')"
    "fst ` set d' = (if l + 1 \<in> set (ly_layer_ids L) then fst ` set ?data - lw_failure_req_ids lw' else {})"
    "\<forall>(q, tk) \<in> set d'. layer_accepted ?K ?data (l + 1) q tk t'" by auto
  have st: "load_step (?lw0, t) (lw', t')" using wo(2) ao(2) by (rule load_step_trans)
  then have same: "lw_request_data lw' = ?data" "lw_connector_metadata lw' = Some metadata" "lw_need_load lw'"
    "lw_failure_req_ids lw \<subseteq> lw_failure_req_ids lw'" using md(1) tasks(2) by (simp_all add: load_step_def)
  have "d' \<noteq> [] \<Longrightarrow> l + 1 \<in> set (ly_layer_ids L)" using d'(3) by (auto split: if_splits)
  then have "flight_ok L lw' t'" unfolding flight_ok_def same
    by (intro exI [of _ "l + 1"] exI [of _ d']) (use d' in auto)
  with same md(2,3) ao(3) have "batch_ok L lw' t'" by (auto simp: batch_ok_def)
  moreover have "pipeline_of lw' = visit (set (ly_layer_ids L)) l (lw_failure_req_ids lw') (pipeline_of lw)"
    unfolding pipeline_tasks_at [OF d'(1)] assms(4) using d'(3) keys k(3) same(4) by (auto simp: Diff_eq)
  moreover have "\<exists>tk. layer_accepted ?K ?data l q tk t \<and> load_waited tk (events_since t t')"
    if "q \<in> R - lw_failure_req_ids lw'" for q
  proof -
    from that k(3) obtain tk where tk: "(q, tk) \<in> set d" by auto
    have "lw_failure_req_ids lw1 \<subseteq> lw_failure_req_ids lw'" using ao(2) by (simp add: load_step_def)
    then have "load_waited tk (events_since t t1)" using wo(5) tk that by blast
    moreover have "events_since t t1 \<subseteq> events_since t t'"
      using wo(2) ao(2) since_mono(1) unfolding load_step_def fst_conv snd_conv by blast
    ultimately show ?thesis using kd(5) tk k(1) waited_mono by blast
  qed
  ultimately show ?thesis using ao(1) by blast
qed

section \<open>Facts about the dumps\<close>

lemma layer_dumps_append: "layer_dumps l (t @ es) = layer_dumps l t + layer_dumps l es"
  by (simp add: layer_dumps_def)

lemma get_handle_no_dump: "get_dump_event_handle W K wk t = (r, wk', t') \<Longrightarrow> layer_dumps l t' = layer_dumps l t"
  by (auto simp: get_dump_event_handle_def synchronize_def get_event_handle_def cuda_get_event_handle_def
      npu_get_event_handle_def layer_dumps_def Let_def split: if_splits sum.splits prod.splits device_kind.splits)

lemma release_no_dump: "release_dump_event_handle K h wk t = (wk', t') \<Longrightarrow> layer_dumps l t' = layer_dumps l t"
  by (auto simp: release_dump_event_handle_def destroy_event_handle_def layer_dumps_def split: if_splits device_kind.splits)

lemma submit_dump_counts:
  assumes "submit_dump W store ctx ids (replicate (length ids) k) ptrs handle m t = (r, m', t')" "ids \<noteq> []"
  shows "layer_dumps l t' = layer_dumps l t + (if l = k \<and> (\<exists>tk. r = Inr tk) then 1 else 0)"
proof -
  obtain x where x: "w_dump_data W t store ids (replicate (length ids) k) ptrs handle = x" by simp
  have "r = x \<and> t' = t @ [DumpData store ids (replicate (length ids) k) ptrs handle x]"
    using assms(1) by (cases x) (auto simp: submit_dump_def store_dump_data_def Let_def x)
  with assms(2) show ?thesis by (cases x) (auto simp: layer_dumps_def)
qed

lemma try_layer_cases:
  assumes "try_layer_dump W L l ids ctx ptrs wk t = (r, h, wk', t')"
  obtains (untried) e where "r = Inl e" "h = 0" "wk' = wk" "t' = t"
  | (unsynchronised) e where "r = Inl e" "h = 0" "get_dump_event_handle W (ly_worker_conf L) wk t = (Inl e, wk', t')"
  | (answered) r1 wk1 t1 layer_ptrs m where "r = map_sum id (\<lambda>tk. (tk, h)) r1"
      "get_dump_event_handle W (ly_worker_conf L) wk t = (Inr h, wk1, t1)"
      "submit_dump W (wc_store (ly_worker_conf L)) ctx ids (replicate (length ids) l) layer_ptrs h (wk_rank_consistency wk1) t1 = (r1, m, t')"
      "wk' = wk1\<lparr>wk_rank_consistency := m\<rparr>"
proof -
  let ?K = "ly_worker_conf L"
  note run = assms [unfolded try_layer_dump_def Let_def]
  show thesis
  proof (cases "py_nth ptrs (l - ly_first_layer_id L)")
    case (Inl e)
    with run show ?thesis by (intro untried [of e]) auto
  next
    case (Inr layer_ptrs)
    obtain r0 wk1 t1 where g: "get_dump_event_handle W ?K wk t = (r0, wk1, t1)" by (rule prod_cases3)
    show ?thesis
    proof (cases r0)
      case (Inl e)
      with run \<open>py_nth ptrs (l - ly_first_layer_id L) = Inr layer_ptrs\<close> g show ?thesis by (intro unsynchronised [of e]) auto
    next
      case (Inr h0)
      obtain r1 m t2 where s: "submit_dump W (wc_store ?K) ctx ids (replicate (length ids) l) layer_ptrs h0
        (wk_rank_consistency wk1) t1 = (r1, m, t2)" by (rule prod_cases3)
      have "r = map_sum id (\<lambda>tk. (tk, h0)) r1" "h = h0" "wk' = wk1\<lparr>wk_rank_consistency := m\<rparr>" "t' = t2"
        using run \<open>py_nth ptrs (l - ly_first_layer_id L) = Inr layer_ptrs\<close> g Inr s by auto
      with g Inr s show ?thesis by (intro answered [of r1 wk1 t1 layer_ptrs m]) simp_all
    qed
  qed
qed

text \<open>One layer dump, as far as the books and the count of dumps go.\<close>

lemma submit_layer_dump_outcome:
  assumes "submit_layerwise_dump_task W L k dumps lw t = (r, lw', t')" "books_ok (lw_worker lw)"
    and "concat (map (\<lambda>(_, u, _). layer_store_ids (ly_worker_conf L) u) dumps) \<noteq> []"
  shows "books_ok (lw_worker lw') \<and> lw_dumped_layer_ids lw' = lw_dumped_layer_ids lw \<and>
    lw_connector_metadata lw' = lw_connector_metadata lw \<and>
    length (wk_pending_dump_tasks (lw_worker lw')) =
      length (wk_pending_dump_tasks (lw_worker lw)) + (if r = Inr True then 1 else 0) \<and>
    (\<forall>l. layer_dumps l t' = layer_dumps l t + (if l = k \<and> r = Inr True then 1 else 0))"
proof -
  let ?K = "ly_worker_conf L" and ?ids = "concat (map (\<lambda>(_, u, _). layer_store_ids (ly_worker_conf L) u) dumps)"
  let ?ctx = "map (\<lambda>(req_id, u, _). (req_id, set u)) dumps"
  let ?ptrs = "case lw_dump_total_ptrs lw of None \<Rightarrow> layer_first_addrs ?K (concat (map (\<lambda>(_, _, v). v) dumps)) | Some p \<Rightarrow> Inr p"
  note run = assms(1) [unfolded submit_layerwise_dump_task_def Let_def]
  show ?thesis
  proof (cases ?ptrs)
    case (Inl e)
    with run have "r = Inl e" "lw' = lw" "t' = t" by auto
    with assms(2) show ?thesis by simp
  next
    case (Inr ptrs)
    obtain r1 h wk1 t1 where att: "try_layer_dump W L k ?ids ?ctx ptrs (lw_worker lw) t = (r1, h, wk1, t1)" by (rule prod_cases4)
    have S: "open_dumps (wk_rank_consistency (lw_worker lw)) \<subseteq> booked (wk_pending_dump_tasks (lw_worker lw))"
      using assms(2) by (simp add: books_ok_def)
    have t: "wk_pending_dump_tasks wk1 = wk_pending_dump_tasks (lw_worker lw) \<and>
      open_dumps (wk_rank_consistency wk1) \<subseteq> (case r1 of Inl e \<Rightarrow> booked (wk_pending_dump_tasks (lw_worker lw))
        | Inr (tk, _) \<Rightarrow> insert (tk, fst ` set dumps) (booked (wk_pending_dump_tasks (lw_worker lw)))) \<and>
      (\<forall>l. layer_dumps l t1 = layer_dumps l t + (if l = k \<and> (\<exists>x. r1 = Inr x) then 1 else 0))"
      using att
    proof (cases rule: try_layer_cases)
      case (untried e)
      with S show ?thesis by simp
    next
      case (unsynchronised e)
      with S get_dump_event_frame [OF unsynchronised(3)] get_handle_no_dump [OF unsynchronised(3)] show ?thesis by simp
    next
      case (answered r2 wk2 t2 layer_ptrs m)
      note frame = get_dump_event_frame [OF answered(2)] and none = get_handle_no_dump [OF answered(2)]
      note count = submit_dump_counts [OF answered(3) assms(3)]
      have S2: "open_dumps (wk_rank_consistency wk2) \<subseteq> booked (wk_pending_dump_tasks (lw_worker lw))" using S frame by simp
      show ?thesis
      proof (cases r2)
        case (Inl e)
        with answered(1,4) manager_ledger.rejected [OF answered(3) [unfolded Inl]] S2 frame count none show ?thesis by simp
      next
        case (Inr tk)
        with answered(1,4) manager_ledger.book_submit [OF S2 answered(3) [unfolded Inr]] frame count none show ?thesis
          by (simp add: step_context_ids del: set_map)
      qed
    qed
    show ?thesis
    proof (cases r1)
      case (Inl e)
      obtain wk2 t2 where rel: "release_dump_event_handle ?K h wk1 (update_stats [(''connector_dump_submit_errors_total'', 1)] t1) = (wk2, t2)"
        by (rule prod.exhaust)
      have "r = Inr False" "t' = t2" "lw' = lw\<lparr>lw_dump_total_ptrs := Some ptrs, lw_worker := wk2\<rparr>"
        using run Inr att Inl rel by auto
      moreover have "layer_dumps l t2 = layer_dumps l t1" for l
        using release_no_dump [OF rel] by (simp add: update_stats_def layer_dumps_def)
      ultimately show ?thesis using t Inl release_frame [OF rel] by (simp add: books_ok_def)
    next
      case (Inr x)
      obtain tk h' where x: "x = (tk, h')" by (cases x)
      have "r = Inr True" "t' = t1" "lw_dumped_layer_ids lw' = lw_dumped_layer_ids lw" "lw_connector_metadata lw' = lw_connector_metadata lw"
        "lw_worker lw' = wk1\<lparr>wk_pending_dump_tasks := wk_pending_dump_tasks wk1 @
          [\<lparr> pd_task = tk, pd_request_ids = fst ` set dumps, pd_event_handle = h', pd_wait_for_save_start_ms = 0 \<rparr>]\<rparr>"
        using run \<open>?ptrs = Inr ptrs\<close> att Inr x by auto
      with t Inr x show ?thesis by (simp add: books_ok_def booked_def)
    qed
  qed
qed

lemma dump_ids_nonempty:
  assumes "rank_dumps K plans \<noteq> []"
  shows "concat (map (\<lambda>(_, u, _). layer_store_ids K u) (rank_dumps K plans)) \<noteq> []"
proof -
  obtain q u v rest where d: "rank_dumps K plans = (q, u, v) # rest"
    using assms by (metis neq_Nil_conv prod_cases3)
  have "u \<noteq> []" if "(q, u, v) \<in> set (rank_dumps K plans)" for q u v using that by (auto simp: rank_dumps_def)
  then have "u \<noteq> []" using d by (metis list.set_intros(1))
  then show ?thesis using d by (simp add: layer_store_ids_def)
qed

lemma save_layer_outcome:
  assumes "save_kv_layer W L name lw t = (r, lw', t')" "books_ok (lw_worker lw)"
  shows "books_ok (lw_worker lw') \<and> lw_connector_metadata lw' = lw_connector_metadata lw \<and>
    lw_dumped_layer_ids lw \<subseteq> lw_dumped_layer_ids lw' \<and>
    (\<forall>l. layer_dumps l t' = layer_dumps l t + (if l \<in> lw_dumped_layer_ids lw' - lw_dumped_layer_ids lw then 1 else 0)) \<and>
    finite (lw_dumped_layer_ids lw' - lw_dumped_layer_ids lw) \<and>
    length (wk_pending_dump_tasks (lw_worker lw')) =
      length (wk_pending_dump_tasks (lw_worker lw)) + card (lw_dumped_layer_ids lw' - lw_dumped_layer_ids lw)"
proof -
  consider "lw' = lw" "t' = t" | k metadata where "lw_connector_metadata lw = Some metadata" "k \<notin> lw_dumped_layer_ids lw"
      "rank_dumps (ly_worker_conf L) (cm_request_meta metadata) \<noteq> []"
      "(case submit_layerwise_dump_task W L k (rank_dumps (ly_worker_conf L) (cm_request_meta metadata)) lw t of
         (Inl e, lw1, t1) \<Rightarrow> (Inl e, lw1, t1)
       | (Inr submitted, lw1, t1) \<Rightarrow>
           (Inr (), if submitted then lw1\<lparr>lw_dumped_layer_ids := insert k (lw_dumped_layer_ids lw1)\<rparr> else lw1, t1)) = (r, lw', t')"
    using assms(1) unfolding save_kv_layer_def Let_def by (auto split: option.splits sum.splits if_splits)
  then show ?thesis
  proof cases
    case 1
    with assms(2) show ?thesis by simp
  next
    case (2 k metadata)
    let ?dumps = "rank_dumps (ly_worker_conf L) (cm_request_meta metadata)"
    obtain r1 lw1 t1 where s: "submit_layerwise_dump_task W L k ?dumps lw t = (r1, lw1, t1)" by (rule prod_cases3)
    note o = submit_layer_dump_outcome [OF s assms(2) dump_ids_nonempty [OF 2(3)]]
    show ?thesis
    proof (cases "r1 = Inr True")
      case True
      then have "lw' = lw1\<lparr>lw_dumped_layer_ids := insert k (lw_dumped_layer_ids lw1)\<rparr>" "t' = t1"
        using 2(4) s by auto
      moreover have "insert k (lw_dumped_layer_ids lw) - lw_dumped_layer_ids lw = {k}" using 2(2) by auto
      ultimately show ?thesis using o True by auto
    next
      case False
      then have "lw' = lw1" "t' = t1" using 2(4) s by (auto split: sum.splits)
      with o False show ?thesis by simp
    qed
  qed
qed

lemma restamp_books:
  "booked (map (\<lambda>pd. if P pd then pd\<lparr>pd_wait_for_save_start_ms := s\<rparr> else pd) pds) = booked pds"
  unfolding booked_def set_map image_image by (rule image_cong) auto

lemma lw_save_books:
  assumes "lw_wait_for_save W L lw t = (lw', t')" "books_ok (lw_worker lw)"
  shows "books_ok (lw_worker lw')"
proof -
  obtain s t0 where p: "perf_counter_ms W t = (s, t0)" by (rule prod.exhaust)
  let ?wk = "(lw_worker lw)\<lparr>wk_pending_dump_tasks :=
    map (\<lambda>pd. if pd_wait_for_save_start_ms pd \<le> 0 then pd\<lparr>pd_wait_for_save_start_ms := s\<rparr> else pd)
      (wk_pending_dump_tasks (lw_worker lw))\<rparr>"
  obtain wk1 t1 where q: "poll_pending_dump_tasks W (ly_worker_conf L) ?wk t0 = (wk1, t1)" by (rule prod.exhaust)
  have "books_ok ?wk" using assms(2) by (simp add: books_ok_def restamp_books)
  from poll_keeps_books [OF q this] have "books_ok wk1" .
  moreover have "wk_rank_consistency (lw_worker lw') = wk_rank_consistency wk1 \<and>
    wk_pending_dump_tasks (lw_worker lw') = wk_pending_dump_tasks wk1"
    using assms(1) unfolding lw_wait_for_save_def p prod.case Let_def q by (auto split: option.splits)
  ultimately show ?thesis by (simp add: books_ok_def)
qed

text \<open>The load hooks leave the dump side of the worker alone, whatever the state.\<close>

lemma fail_layer_frame:
  "fail_layer_load metric plans q lw t = (r, lw', t') \<Longrightarrow> dump_side_same (lw_worker lw, t) (lw_worker lw', t')"
  using record_load_error_frame by (auto simp: fail_layer_load_def split: sum.splits prod.splits)

lemma submit_layer_frame:
  "submit_layer_loads W K plans l row rest submitted lw t = (r, lw', t') \<Longrightarrow> dump_side_same (lw_worker lw, t) (lw_worker lw', t')"
proof (induction rest arbitrary: submitted lw t)
  case (Cons a rest)
  obtain q us ids rows where a: "a = (q, us, ids, rows)" by (cases a)
  let ?m = "wk_rank_consistency (lw_worker lw)"
  let ?sub = "case py_nth rows row of Inl e \<Rightarrow> (Inl e, ?m, t)
    | Inr layer_ptrs \<Rightarrow> submit_load W (wc_store K) [(q, us)] ids (replicate (length us) l) layer_ptrs (wc_is_mla K) ?m t"
  obtain r1 m t1 where s: "?sub = (r1, m, t1)" by (rule prod_cases3)
  have "open_dumps m = open_dumps ?m \<and> quiet t t1" using s submit_load_frame by (auto split: sum.splits)
  then have f: "dump_side_same (lw_worker lw, t) ((lw_worker lw)\<lparr>wk_rank_consistency := m\<rparr>, t1)" by (simp add: dump_side_manager)
  let ?lw = "lw\<lparr>lw_worker := (lw_worker lw)\<lparr>wk_rank_consistency := m\<rparr>\<rparr>"
  show ?case
  proof (cases "q \<in> lw_failure_req_ids lw")
    case True
    with Cons a show ?thesis by simp
  next
    case False
    show ?thesis
    proof (cases r1)
      case (Inr tk)
      have "submit_layer_loads W K plans l row rest True (put_load_task l q tk ?lw) t1 = (r, lw', t')"
        using Cons.prems a False s Inr by simp
      from Cons.IH [OF this] have "dump_side_same ((lw_worker lw)\<lparr>wk_rank_consistency := m\<rparr>, t1) (lw_worker lw', t')"
        by (simp add: put_load_task_def)
      with f show ?thesis by (rule dump_side_trans)
    next
      case (Inl e)
      obtain r2 lw2 t2 where g: "fail_layer_load ''connector_load_submit_errors_total'' plans q ?lw t1 = (r2, lw2, t2)" by (rule prod_cases3)
      from fail_layer_frame [OF g] have g2: "dump_side_same (lw_worker lw, t) (lw_worker lw2, t2)" using dump_side_trans [OF f] by simp
      show ?thesis
      proof (cases r2)
        case (Inl e)
        with Cons.prems a False s \<open>r1 = Inl _\<close> g g2 show ?thesis by simp
      next
        case (Inr v)
        then have "submit_layer_loads W K plans l row rest submitted lw2 t2 = (r, lw', t')"
          using Cons.prems a False s Inl g by simp
        from dump_side_trans [OF g2 Cons.IH [OF this]] show ?thesis .
      qed
    qed
  qed
qed simp

lemma launch_frame:
  assumes "submit_request_load_tasks_for_layer W K l row plans start lw t = (r, lw', t')"
  shows "dump_side_same (lw_worker lw, t) (lw_worker lw', t')"
proof -
  obtain s t1 where s: "(case start of None \<Rightarrow> perf_counter W t | Some s \<Rightarrow> (s, t)) = (s, t1)" by (rule prod.exhaust)
  then have "t1 = t \<or> t1 = t @ [PerfCounter]" by (auto simp: perf_counter_def split: option.splits)
  then have f: "dump_side_same (lw_worker lw, t) (lw_worker lw, t1)" by (auto simp: dump_side_same_def)
  obtain r1 lw1 t2 where sub: "submit_layer_loads W K plans l row (lw_request_data lw) False lw t1 = (r1, lw1, t2)" by (rule prod_cases3)
  have "lw_worker lw' = lw_worker lw1 \<and> t' = t2"
    using assms unfolding submit_request_load_tasks_for_layer_def s prod.case sub by (cases r1) auto
  with dump_side_trans [OF f submit_layer_frame [OF sub]] show ?thesis by simp
qed

lemma prepare_worker: "prepare_loads K plans lw = (r, lw') \<Longrightarrow> lw_worker lw' = lw_worker lw"
  by (induction plans arbitrary: lw) (auto simp: Let_def split: if_splits sum.splits)

lemma lw_start_frame:
  assumes "lw_start_load_kv W L lw t = (r, lw', t')"
  shows "dump_side_same (lw_worker lw, t) (lw_worker lw', t')"
proof -
  obtain s t0 where s: "perf_counter W t = (s, t0)" by (rule prod.exhaust)
  then have f: "dump_side_same (lw_worker lw, t) (lw_worker lw, t0)" by (auto simp: perf_counter_def dump_side_same_def)
  show ?thesis
  proof (cases "lw_connector_metadata lw")
    case None
    with assms s f show ?thesis by (auto simp: lw_start_load_kv_def)
  next
    case (Some metadata)
    obtain r1 lw1 where p: "prepare_loads (ly_worker_conf L) (cm_request_meta metadata) lw = (r1, lw1)" by (rule prod.exhaust)
    note run = assms [unfolded lw_start_load_kv_def s prod.case Some option.case p]
    have f1: "dump_side_same (lw_worker lw, t) (lw_worker lw1, t0)" using f prepare_worker [OF p] by simp
    show ?thesis
    proof (cases "(\<exists>v. r1 = Inr v) \<and> lw_need_load lw1")
      case True
      with run have "submit_request_load_tasks_for_layer W (ly_worker_conf L) (ly_first_layer_id L) 0
        (cm_request_meta metadata) (Some s) lw1 t0 = (r, lw', t')" by auto
      from dump_side_trans [OF f1 launch_frame [OF this]] show ?thesis .
    next
      case False
      with run have "lw' = lw1 \<and> t' = t0" by (cases r1) auto
      with f1 show ?thesis by simp
    qed
  qed
qed

lemma wait_tasks_frame:
  "wait_layer_tasks W K plans d lw t = (r, lw', t') \<Longrightarrow> dump_side_same (lw_worker lw, t) (lw_worker lw', t')"
proof (induction d arbitrary: lw t)
  case (Cons a rest)
  obtain q tk where a: "a = (q, tk)" by (cases a)
  obtain r1 m t1 where w: "wait_load W tk None (wk_rank_consistency (lw_worker lw)) t = (r1, m, t1)" by (rule prod_cases3)
  let ?lw = "lw\<lparr>lw_worker := (lw_worker lw)\<lparr>wk_rank_consistency := m\<rparr>\<rparr>"
  have f: "dump_side_same (lw_worker lw, t) (lw_worker ?lw, t1)" using wait_load_frame [OF w] by (simp add: dump_side_manager)
  note run = Cons.prems [unfolded a wait_layer_tasks.simps w prod.case Let_def]
  show ?case
  proof (cases r1)
    case (Inl e)
    obtain r2 lw2 t2 where g: "fail_layer_load ''connector_load_wait_errors_total'' plans q ?lw t1 = (r2, lw2, t2)" by (rule prod_cases3)
    note g2 = dump_side_trans [OF f fail_layer_frame [OF g]]
    show ?thesis
    proof (cases r2)
      case (Inl e')
      with run \<open>r1 = Inl e\<close> g g2 show ?thesis by simp
    next
      case (Inr v)
      with run Inl g have "wait_layer_tasks W K plans rest lw2 t2 = (r, lw', t')" by simp
      from dump_side_trans [OF g2 Cons.IH [OF this]] show ?thesis .
    qed
  next
    case (Inr v)
    show ?thesis
    proof (cases "dict_get plans q")
      case (Inl e)
      with run Inr f show ?thesis by simp
    next
      case (Inr request)
      with run \<open>r1 = Inr v\<close> have "wait_layer_tasks W K plans rest (?lw\<lparr>lw_load_bytes := lw_load_bytes ?lw +
          int (length (fst (dm_load_block_ids request))) * shard_size (wc_kv_cache_layout K)\<rparr>) t1 = (r, lw', t')" by simp
      from Cons.IH [OF this] have "dump_side_same (lw_worker ?lw, t1) (lw_worker lw', t')" by simp
      with f show ?thesis by (rule dump_side_trans)
    qed
  qed
qed simp

lemma after_layer_frame:
  assumes "after_layer_load W L plans l lw t = (r, lw', t')"
  shows "dump_side_same (lw_worker lw, t) (lw_worker lw', t')"
proof -
  obtain e t1 where p: "perf_counter W t = (e, t1)" by (rule prod.exhaust)
  obtain b lw1 t2 where rec: "record_layerwise_load_duration l e lw t1 = (b, lw1, t2)" by (rule prod_cases3)
  have "lw_worker lw1 = lw_worker lw \<and> quiet t t2"
    using p rec by (auto simp: perf_counter_def record_layerwise_load_duration_def Let_def update_stats_def quiet_def split: option.splits)
  then have f: "dump_side_same (lw_worker lw, t) (lw_worker lw1, t2)" by (simp add: dump_side_same_def)
  note run = assms [unfolded after_layer_load_def p prod.case rec Let_def]
  show ?thesis
  proof (cases "l + 1 \<in> set (ly_layer_ids L)")
    case True
    with run have "submit_request_load_tasks_for_layer W (ly_worker_conf L) (l + 1) (l + 1 - ly_first_layer_id L) plans None lw1 t2 = (r, lw', t')"
      by simp
    from dump_side_trans [OF f launch_frame [OF this]] show ?thesis .
  next
    case False
    with run have "lw_worker lw' = lw_worker lw1 \<and> quiet t2 t'" by (auto simp: update_stats_def split: if_splits)
    then have "dump_side_same (lw_worker lw1, t2) (lw_worker lw', t')" by (simp add: dump_side_same_def)
    with f show ?thesis by (rule dump_side_trans)
  qed
qed

lemma wait_layer_frame:
  assumes "wait_for_layer_load W L name lw t = (r, lw', t')"
  shows "dump_side_same (lw_worker lw, t) (lw_worker lw', t')"
proof (cases "lw_connector_metadata lw")
  case (Some metadata)
  let ?K = "ly_worker_conf L" and ?plans = "cm_request_meta metadata"
  note run = assms [unfolded wait_for_layer_load_def Some option.case Let_def]
  show ?thesis
  proof (cases "lw_need_load lw \<and> (\<exists>l. dict_get (ly_layer_name_to_id L) name = Inr l)")
    case True
    then obtain l where l: "lw_need_load lw" "dict_get (ly_layer_name_to_id L) name = Inr l" by blast
    let ?d = "case map_of (lw_load_tasks lw) l of None \<Rightarrow> [] | Some d \<Rightarrow> d"
    let ?lw = "lw\<lparr>lw_load_tasks := AList.delete l (lw_load_tasks lw)\<rparr>"
    obtain r1 lw1 t1 where w: "wait_layer_tasks W ?K ?plans ?d ?lw t = (r1, lw1, t1)" by (rule prod_cases3)
    from wait_tasks_frame [OF w] have f: "dump_side_same (lw_worker lw, t) (lw_worker lw1, t1)" by simp
    note run = run [unfolded l(2) sum.case w prod.case]
    show ?thesis
    proof (cases "?d = []")
      case True
      with run l(1) show ?thesis by auto
    next
      case False
      show ?thesis
      proof (cases r1)
        case (Inl e)
        with run l(1) False f show ?thesis by auto
      next
        case (Inr v)
        with run l(1) False have "after_layer_load W L ?plans l lw1 t1 = (r, lw', t')" by auto
        from dump_side_trans [OF f after_layer_frame [OF this]] show ?thesis .
      qed
    qed
  next
    case False
    then have "lw' = lw" "t' = t" using run by (auto split: if_splits sum.splits)
    then show ?thesis by simp
  qed
qed (use assms in \<open>simp add: wait_for_layer_load_def\<close>)

lemma layerwise_books: "layerwise_reach kind W L lw t \<Longrightarrow> books_ok (lw_worker lw)"
proof (induction rule: layerwise_reach.induct)
  case (lw_init is_mla use)
  show ?case using worker_books [OF worker_init] by (simp add: init_layerwise_def)
next
  case (lw_load lw t r lw' t')
  then show ?case using books_frame [OF lw_start_frame] by blast
next
  case (lw_layer lw t name r lw' t')
  then show ?case using books_frame [OF wait_layer_frame] by blast
next
  case (lw_save_layer lw t name r lw' t')
  then show ?case using save_layer_outcome by blast
next
  case (lw_save lw t lw' t')
  then show ?case using lw_save_books by blast
next
  case (lw_preempt lw t ids wk' t')
  then show ?case using preempt_keeps_books by simp
next
  case (lw_finished lw t F r' wk' t')
  then show ?case by (auto elim: finished_books)
next
  case (lw_errors lw t S wk')
  then show ?case by (auto simp: books_ok_def get_block_ids_with_load_errors_def)
next
  case (lw_report lw t wm wk')
  then show ?case using report_keeps_books by simp
qed (simp_all add: bind_connector_metadata_def)

section \<open>Properties\<close>

text \<open>
  C4: the layerwise loads refine a pipeline with one layer in flight. Binding the metadata of
  a step and starting its loads launches the first layer for every request that loads
  something and did not fail at once. From any state of a batch, visiting a layer returns and
  moves the pipeline as specified: if the layer is in flight, each of its requests has had its
  load for that layer accepted by the store and waited for with success, or is failed and
  reported, and the next layer is launched for those left; a repeated or unexpected visit
  changes nothing.
\<close>

theorem layerwise_load_refines:
  assumes "ly_first_layer_id L \<in> set (ly_layer_ids L)" "dict_wf (cm_request_meta metadata)"
  shows "(\<forall>lw t lw' t'. lw_start_load_kv W L (bind_connector_metadata metadata lw) t = (Inr (), lw', t') \<longrightarrow>
      batch_ok L lw' t' \<and> pipeline_of lw' =
        (let R = loading_requests (cm_request_meta metadata) - lw_failure_req_ids lw'
         in if R = {} then Landed else Flight (ly_first_layer_id L) R)) \<and>
    (\<forall>name l lw t r lw' t'. batch_ok L lw t \<longrightarrow> map_of (ly_layer_name_to_id L) name = Some l \<longrightarrow>
      wait_for_layer_load W L name lw t = (r, lw', t') \<longrightarrow>
      r = Inr () \<and> batch_ok L lw' t' \<and>
      pipeline_of lw' = visit (set (ly_layer_ids L)) l (lw_failure_req_ids lw') (pipeline_of lw) \<and>
      (\<forall>R. pipeline_of lw = Flight l R \<longrightarrow>
        (\<forall>q \<in> R - lw_failure_req_ids lw'. \<exists>tk. layer_accepted (ly_worker_conf L) (lw_request_data lw) l q tk t \<and>
           load_waited tk (events_since t t'))))"
proof (rule conjI; intro allI impI)
  fix lw t lw' t'
  assume run: "lw_start_load_kv W L (bind_connector_metadata metadata lw) t = (Inr (), lw', t')"
  from batch_starts [OF run assms] show "batch_ok L lw' t' \<and> pipeline_of lw' =
        (let R = loading_requests (cm_request_meta metadata) - lw_failure_req_ids lw'
         in if R = {} then Landed else Flight (ly_first_layer_id L) R)" .
next
  fix name l lw t r lw' t'
  assume a: "batch_ok L lw t" "map_of (ly_layer_name_to_id L) name = Some l" "wait_for_layer_load W L name lw t = (r, lw', t')"
  show "r = Inr () \<and> batch_ok L lw' t' \<and>
      pipeline_of lw' = visit (set (ly_layer_ids L)) l (lw_failure_req_ids lw') (pipeline_of lw) \<and>
      (\<forall>R. pipeline_of lw = Flight l R \<longrightarrow>
        (\<forall>q \<in> R - lw_failure_req_ids lw'. \<exists>tk. layer_accepted (ly_worker_conf L) (lw_request_data lw) l q tk t \<and>
           load_waited tk (events_since t t')))"
  proof (cases "\<exists>R. pipeline_of lw = Flight l R")
    case True
    then obtain R where R: "pipeline_of lw = Flight l R" ..
    from flight_visit [OF a(3,1,2) R] R show ?thesis by simp
  next
    case False
    then have "visit (set (ly_layer_ids L)) l F (pipeline_of lw) = pipeline_of lw" for F by (cases "pipeline_of lw") auto
    with idle_visit [OF a(3,1,2)] False a(1) show ?thesis by simp
  qed
qed

lemma example_batch_starts:
  "\<exists>lw t. lw_start_load_kv (script_world []) example_layer_conf
     (bind_connector_metadata example_metadata (init_layerwise (init_worker CudaDevice True True))) [] = (Inr (), lw, t)"
  by (simp add: lw_start_load_kv_def bind_connector_metadata_def perf_counter_def example_metadata_def example_plan_def
      example_layer_conf_def example_worker_conf_def layer_first_addrs_def extract_block_addrs_def to_u64_def
      init_layerwise_def Let_def submit_request_load_tasks_for_layer_def py_nth_def submit_load_def store_load_data_def
      script_world_def)

lemma layerwise_load_refines_witness:
  "\<exists>lw t lw' t'. lw_start_load_kv (script_world []) example_layer_conf
      (bind_connector_metadata example_metadata (init_layerwise (init_worker CudaDevice True True))) [] = (Inr (), lw, t) \<and>
    wait_for_layer_load (script_world []) example_layer_conf ''l0'' lw t = (Inr (), lw', t') \<and>
    pipeline_of lw = (if {''r''} - lw_failure_req_ids lw = {} then Landed else Flight 0 ({''r''} - lw_failure_req_ids lw)) \<and>
    pipeline_of lw' = visit {0, 1} 0 (lw_failure_req_ids lw') (pipeline_of lw)"
proof -
  from example_batch_starts obtain lw t where start: "lw_start_load_kv (script_world []) example_layer_conf
    (bind_connector_metadata example_metadata (init_layerwise (init_worker CudaDevice True True))) [] = (Inr (), lw, t)" by blast
  obtain r lw' t' where step: "wait_for_layer_load (script_world []) example_layer_conf ''l0'' lw t = (r, lw', t')" by (rule prod_cases3)
  have c: "ly_first_layer_id example_layer_conf \<in> set (ly_layer_ids example_layer_conf)" "ly_first_layer_id example_layer_conf = 0"
    "map_of (ly_layer_name_to_id example_layer_conf) ''l0'' = Some 0" "set (ly_layer_ids example_layer_conf) = {0, 1}"
    by (simp_all add: example_layer_conf_def)
  have m: "dict_wf (cm_request_meta example_metadata)" "loading_requests (cm_request_meta example_metadata) = {''r''}"
    by (auto simp: example_metadata_def dict_wf_def loading_requests_def example_plan_def)
  note refines = layerwise_load_refines [OF c(1) m(1), of "script_world []", unfolded c m]
  from conjunct1 [OF refines] start have s: "batch_ok example_layer_conf lw t"
    "pipeline_of lw = (let R = {''r''} - lw_failure_req_ids lw in if R = {} then Landed else Flight 0 R)" by blast+
  from conjunct2 [OF refines] s(1) c(3) step have "r = Inr ()"
    "pipeline_of lw' = visit {0, 1} 0 (lw_failure_req_ids lw') (pipeline_of lw)" by blast+
  with start step s(2) show ?thesis unfolding Let_def by blast
qed

text \<open>
  C5: a layer is dumped once per batch. However often and in whatever order the layers of a
  batch are visited (speculative decoding visits some twice), the store has accepted exactly
  one dump for each layer recorded as dumped and none for any other, and the pending tasks grew
  by one for each such layer. A layer whose dump failed is tried again at its next visit.
\<close>

theorem layer_dumped_once:
  assumes "fold (\<lambda>name (lw, t). snd (save_kv_layer W L name lw t)) names (bind_connector_metadata metadata lw, t) = (lw', t')"
    and "books_ok (lw_worker lw)"
  shows "layer_dumps l t' = layer_dumps l t + (if l \<in> lw_dumped_layer_ids lw' then 1 else 0) \<and>
    length (wk_pending_dump_tasks (lw_worker lw')) =
      length (wk_pending_dump_tasks (lw_worker lw)) + card (lw_dumped_layer_ids lw')"
proof -
  have "finite (lw_dumped_layer_ids lw' - lw_dumped_layer_ids lw) \<and> lw_dumped_layer_ids lw \<subseteq> lw_dumped_layer_ids lw' \<and>
      layer_dumps l t' = layer_dumps l t + (if l \<in> lw_dumped_layer_ids lw' - lw_dumped_layer_ids lw then 1 else 0) \<and>
      length (wk_pending_dump_tasks (lw_worker lw')) =
        length (wk_pending_dump_tasks (lw_worker lw)) + card (lw_dumped_layer_ids lw' - lw_dumped_layer_ids lw)"
    if "fold (\<lambda>name (lw, t). snd (save_kv_layer W L name lw t)) names (lw, t) = (lw', t')" "books_ok (lw_worker lw)" for lw t
    using that
  proof (induction names arbitrary: lw t)
    case (Cons name names)
    obtain r lw1 t1 where s: "save_kv_layer W L name lw t = (r, lw1, t1)" by (rule prod_cases3)
    note o = save_layer_outcome [OF s Cons.prems(2)]
    have "fold (\<lambda>name (lw, t). snd (save_kv_layer W L name lw t)) names (lw1, t1) = (lw', t')" using Cons.prems(1) s by simp
    note IH = Cons.IH [OF this conjunct1 [OF o]]
    have split: "lw_dumped_layer_ids lw' - lw_dumped_layer_ids lw =
        (lw_dumped_layer_ids lw' - lw_dumped_layer_ids lw1) \<union> (lw_dumped_layer_ids lw1 - lw_dumped_layer_ids lw)"
      "(lw_dumped_layer_ids lw' - lw_dumped_layer_ids lw1) \<inter> (lw_dumped_layer_ids lw1 - lw_dumped_layer_ids lw) = {}"
      using IH o by auto
    with IH o have "card (lw_dumped_layer_ids lw' - lw_dumped_layer_ids lw) =
      card (lw_dumped_layer_ids lw' - lw_dumped_layer_ids lw1) + card (lw_dumped_layer_ids lw1 - lw_dumped_layer_ids lw)"
      by (simp add: card_Un_disjoint)
    with IH o split show ?case by auto
  qed simp
  from this [OF assms(1)] assms(2) show ?thesis by (simp add: bind_connector_metadata_def)
qed

lemma layer_dumped_once_witness:
  "\<exists>lw' t'. fold (\<lambda>name (lw, t). snd (save_kv_layer (script_world []) example_layer_conf name lw t)) [''l0'', ''l1'', ''l0'']
       (bind_connector_metadata example_metadata (init_layerwise (init_worker CudaDevice True True)), []) = (lw', t') \<and>
     layer_dumps 0 t' = layer_dumps 0 [] + (if 0 \<in> lw_dumped_layer_ids lw' then 1 else 0) \<and>
     length (wk_pending_dump_tasks (lw_worker lw')) = card (lw_dumped_layer_ids lw')"
proof -
  let ?lw = "init_layerwise (init_worker CudaDevice True True)"
  obtain lw' t' where run: "fold (\<lambda>name (lw, t). snd (save_kv_layer (script_world []) example_layer_conf name lw t)) [''l0'', ''l1'', ''l0'']
       (bind_connector_metadata example_metadata ?lw, []) = (lw', t')" by (rule prod.exhaust)
  have "books_ok (lw_worker ?lw)" "wk_pending_dump_tasks (lw_worker ?lw) = []"
    using worker_books [OF worker_init] by (simp_all add: init_layerwise_def init_worker_def)
  from layer_dumped_once [OF run this(1), of 0] this(2) run show ?thesis by simp
qed

text \<open>
  C37: a layerwise worker answers \<open>get_finished\<close> as well. After any history of bindings, layer
  loads, layer dumps, saves, preemptions and reports, in any order and with any failures, the
  finished requests that had something to dump are returned, and none of their dump tasks is
  pending afterwards.
\<close>

theorem layerwise_get_finished_answers:
  assumes "layerwise_reach kind W L lw t"
  shows "\<exists>recving wk' t'. get_finished W (ly_worker_conf L) F (lw_worker lw) t =
      (Inr (F \<inter> wk_async_dump_req_ids (lw_worker lw), recving), wk', t') \<and>
    (\<forall>pd \<in> set (wk_pending_dump_tasks wk'). pd_request_ids pd \<inter> (F \<inter> wk_async_dump_req_ids (lw_worker lw)) = {})"
proof -
  obtain r wk' t' where run: "get_finished W (ly_worker_conf L) F (lw_worker lw) t = (r, wk', t')" by (rule prod_cases3)
  from finished_books [OF run layerwise_books [OF assms]] run show ?thesis by metis
qed

lemma layerwise_get_finished_answers_witness:
  "\<exists>lw t recving wk' t'. layerwise_reach CudaDevice (script_world []) example_layer_conf lw t \<and>
     get_finished (script_world []) (ly_worker_conf example_layer_conf) {''r'', ''s''} (lw_worker lw) t = (Inr ({''r''}, recving), wk', t')"
proof -
  let ?lw = "bind_connector_metadata example_metadata (init_layerwise (init_worker CudaDevice True True))"
  obtain lw t where run: "lw_wait_for_save (script_world []) example_layer_conf ?lw [] = (lw, t)" by (rule prod.exhaust)
  have reach: "layerwise_reach CudaDevice (script_world []) example_layer_conf lw t"
    by (rule lw_save [OF lw_bind [OF lw_init] run])
  have "wk_async_dump_req_ids (lw_worker lw) = {''r''}"
    using run by (auto simp: lw_wait_for_save_def bind_connector_metadata_def init_layerwise_def init_worker_def
        perf_counter_ms_def poll_pending_dump_tasks_def example_metadata_def example_plan_def)
  with layerwise_get_finished_answers [OF reach, of "{''r'', ''s''}"] reach show ?thesis by fastforce
qed

end
