(* ===== verification/Connectors.thy ===== *)
theory Connectors
  imports Layerwise
begin

text \<open>
  The connectors built on the direct and layerwise ones, and the choice among them
  (ucm_connector.py): context parallelism (\<open>UCMCPConnector\<close>), the mock connector that lowers
  the hit ratio, the tracing connector (\<open>UCMLiteConnector\<close>), and the front \<open>UCMConnector\<close> with
  its selection and its prefix-cache metrics. The cache configuration vLLM hands over is a
  record of what the selection reads of it.
\<close>

section \<open>Context parallelism\<close>

text \<open>\<open>use_consistency_manager\<close> as configured; absent and false are the same.\<close>

definition cp_consistency_manager_enabled :: "bool \<Rightarrow> bool res" where
  "cp_consistency_manager_enabled use_consistency_manager =
     (if use_consistency_manager
      then Inl (ValueError ''Rank consistency manager is not supported by UCMCPConnector.'') else Inr False)"

record cp_groups =
  pcp_world_size :: int
  pcp_rank :: int
  dcp_world_size :: int
  dcp_rank :: int

record cp_conf =
  cpc_layer_conf :: layer_conf
  cpc_use_layerwise :: bool
  cpc_cp_world_size :: int
  cpc_current_rank :: int

text \<open>
  The constructor. vLLM answers for its prefill and decode context-parallel groups with their
  sizes and the rank in them, or fails an assertion (\<open>None\<close>) where they are not initialised, as
  in tests. The hash namespaces are built with the tensor-parallel size divided by the decode
  group's, except for MLA.
\<close>

definition read_cp_groups :: "((int \<times> int) \<times> (int \<times> int)) option \<Rightarrow> cp_groups" where
  "read_cp_groups groups =
     (case groups of
        Some ((pcp, rank_in_pcp), (dcp, rank_in_dcp)) \<Rightarrow>
          \<lparr> pcp_world_size = pcp, pcp_rank = (if pcp > 1 then rank_in_pcp else 0),
            dcp_world_size = dcp, dcp_rank = rank_in_dcp \<rparr>
      | None \<Rightarrow> \<lparr> pcp_world_size = 1, pcp_rank = 0, dcp_world_size = 1, dcp_rank = 0 \<rparr>)"

definition cp_hash_config :: "bool \<Rightarrow> cp_groups \<Rightarrow> vllm_config \<Rightarrow> vllm_config" where
  "cp_hash_config is_mla G cfg =
     (if is_mla then cfg
      else cfg\<lparr>cfg_tensor_parallel_size := cfg_tensor_parallel_size cfg div dcp_world_size G\<rparr>)"

definition init_cp_worker ::
  "hash_env \<Rightarrow> string \<Rightarrow> vllm_config \<Rightarrow> layer_conf \<Rightarrow> bool option \<Rightarrow> cp_groups \<Rightarrow> int \<Rightarrow> int \<Rightarrow> cp_conf" where
  "init_cp_worker E layout_digest cfg L use_layerwise G prefill_size decode_size =
     (let K = ly_worker_conf L;
          tp_rank = wc_tp_rank K mod wc_tp_size K div dcp_world_size G;
          request_hasher = init_request_hasher E
            (build_kv_hash_meta layout_digest (cp_hash_config (wc_is_mla K) G cfg) tp_rank)
      in \<lparr> cpc_layer_conf = L\<lparr>ly_worker_conf := K\<lparr>wc_tp_rank := tp_rank,
             wc_request_hasher := (\<lambda>block_id. hasher_call E (meta_bytes request_hasher) (BytesInput block_id))\<rparr>\<rparr>,
           cpc_use_layerwise = (case use_layerwise of None \<Rightarrow> True | Some b \<Rightarrow> b),
           cpc_cp_world_size = prefill_size * decode_size,
           cpc_current_rank = dcp_world_size G * pcp_rank G + dcp_rank G \<rparr>)"

text \<open>\<open>hash_block_size\<close> is the block size before it is multiplied by the number of ranks.\<close>

definition init_cp_scheduler ::
  "hash_env \<Rightarrow> string \<Rightarrow> vllm_config \<Rightarrow> bool \<Rightarrow> sched_conf \<Rightarrow> cp_groups \<Rightarrow> int \<Rightarrow> int \<Rightarrow> sched_conf res" where
  "init_cp_scheduler E layout_digest cfg is_mla C G prefill_size decode_size =
     (let hash_cfg = cp_hash_config is_mla G cfg;
          request_hasher = init_request_hasher E (build_kv_hash_meta layout_digest hash_cfg 0);
          cp = prefill_size * decode_size
      in bindR (make_request_block_hasher E request_hasher (cf_block_size C) (Some (seed request_hasher))) (\<lambda>block_hasher.
           Inr (C\<lparr>cf_cp_world_size := cp,
                  cf_other_rank_hashers := make_other_rank_hashers E (build_kv_hash_meta layout_digest hash_cfg) is_mla
                    (cfg_tensor_parallel_size hash_cfg),
                  cf_block_size := cf_block_size C * cp,
                  cf_request_block_hasher := block_hasher\<rparr>)))"

definition cp_share :: "cp_conf \<Rightarrow> bytes list \<times> int list \<Rightarrow> bytes list \<times> int list" where
  "cp_share C blocks =
     (if fst blocks \<noteq> []
      then (py_stride (fst blocks) (nat (cpc_current_rank C)) (nat (cpc_cp_world_size C)), snd blocks)
      else blocks)"

definition cp_share_plan :: "cp_conf \<Rightarrow> dispatch_meta \<Rightarrow> dispatch_meta" where
  "cp_share_plan C request =
     request\<lparr>dm_load_block_ids := cp_share C (dm_load_block_ids request),
             dm_dump_block_ids := cp_share C (dm_dump_block_ids request)\<rparr>"

definition cp_bind_connector_metadata :: "cp_conf \<Rightarrow> connector_metadata \<Rightarrow> layerwise \<Rightarrow> layerwise" where
  "cp_bind_connector_metadata C metadata lw =
     bind_connector_metadata
       (metadata\<lparr>cm_request_meta := map (\<lambda>(req_id, request). (req_id, cp_share_plan C request)) (cm_request_meta metadata)\<rparr>) lw"

definition cp_start_load_kv :: "world \<Rightarrow> cp_conf \<Rightarrow> layerwise \<Rightarrow> trace \<Rightarrow> unit res \<times> layerwise \<times> trace" where
  "cp_start_load_kv W C lw t =
     (if cpc_use_layerwise C then lw_start_load_kv W (cpc_layer_conf C) lw t
      else case lw_connector_metadata lw of
             None \<Rightarrow> (Inl AssertionError, lw, t)
           | Some metadata \<Rightarrow>
               (case start_load_kv W (ly_worker_conf (cpc_layer_conf C)) metadata (lw_worker lw) t of
                  (wk, t) \<Rightarrow> (Inr (), lw\<lparr>lw_worker := wk\<rparr>, t)))"

definition cp_wait_for_layer_load :: "world \<Rightarrow> cp_conf \<Rightarrow> string \<Rightarrow> layerwise \<Rightarrow> trace \<Rightarrow> unit res \<times> layerwise \<times> trace" where
  "cp_wait_for_layer_load W C layer_name lw t =
     (if cpc_use_layerwise C then wait_for_layer_load W (cpc_layer_conf C) layer_name lw t else (Inr (), lw, t))"

definition cp_save_kv_layer :: "world \<Rightarrow> cp_conf \<Rightarrow> string \<Rightarrow> layerwise \<Rightarrow> trace \<Rightarrow> unit res \<times> layerwise \<times> trace" where
  "cp_save_kv_layer W C layer_name lw t =
     (if cpc_use_layerwise C then save_kv_layer W (cpc_layer_conf C) layer_name lw t else (Inr (), lw, t))"

definition cp_wait_for_save :: "world \<Rightarrow> cp_conf \<Rightarrow> layerwise \<Rightarrow> trace \<Rightarrow> unit res \<times> layerwise \<times> trace" where
  "cp_wait_for_save W C lw t =
     (if cpc_use_layerwise C then (case lw_wait_for_save W (cpc_layer_conf C) lw t of (lw, t) \<Rightarrow> (Inr (), lw, t))
      else case lw_connector_metadata lw of
             None \<Rightarrow> (Inl AssertionError, lw, t)
           | Some metadata \<Rightarrow>
               (case wait_for_save W (ly_worker_conf (cpc_layer_conf C)) metadata (lw_worker lw) t of
                  (wk, t) \<Rightarrow> (Inr (), lw\<lparr>lw_worker := wk\<rparr>, t)))"

section \<open>The overlap connector\<close>

text \<open>\<open>UCMPDConnector\<close> overrides two calls and implements neither.\<close>

definition pd_get_num_new_matched_tokens :: "sched_request \<Rightarrow> int \<Rightarrow> (int \<times> bool) res" where
  "pd_get_num_new_matched_tokens request num_computed_tokens = Inl NotImplementedError"

definition pd_get_finished :: "string set \<Rightarrow> (string set option \<times> string set option) res" where
  "pd_get_finished finished_req_ids = Inl NotImplementedError"

section \<open>The mock connector\<close>

text \<open>
  \<open>expected_hits n\<close> stands for \<open>int(self._hit_ratio * n)\<close>, floating-point arithmetic on the configured
  ratio.
\<close>

definition mock_get_num_new_matched_tokens ::
  "world \<Rightarrow> sched_conf \<Rightarrow> (int \<Rightarrow> int) \<Rightarrow> sched_request \<Rightarrow> int \<Rightarrow> int \<Rightarrow> sched \<Rightarrow> trace \<Rightarrow> (int \<times> bool) res \<times> sched \<times> trace" where
  "mock_get_num_new_matched_tokens W C expected_hits request num_prompt_tokens num_computed_tokens st t =
     (case get_num_new_matched_tokens W C request num_computed_tokens st t of
        (Inl e, st, t) \<Rightarrow> (Inl e, st, t)
      | (Inr (hit_tokens, _), st, t) \<Rightarrow>
          let expect_hit_tokens = expected_hits num_prompt_tokens
          in if hit_tokens \<le> expect_hit_tokens then (Inr (hit_tokens, False), st, t)
             else
               let expect_hit_block_num = expect_hit_tokens div cf_block_size C;
                   req_id = request_id (sr_request request)
               in case map_of (requests_meta st) req_id of
                    None \<Rightarrow> (Inl KeyError, st, t)
                  | Some rm \<Rightarrow>
                      (Inr (expect_hit_block_num * cf_block_size C, False),
                       st\<lparr>requests_meta := AList.update req_id
                            (rm\<lparr>rm_total_hit_block_num := expect_hit_block_num,
                                rm_hbm_hit_block_num := min expect_hit_block_num (rm_hbm_hit_block_num rm)\<rparr>)
                            (requests_meta st)\<rparr>, t))"

section \<open>Tracing without transfers\<close>

text \<open>
  \<open>generate_hash\<close> is what looking \<open>self.generate_hash\<close> up gives: the class does not define it, so it
  is \<open>None\<close> unless vLLM's base class has such a method.
\<close>

record lite =
  lite_requests_meta :: "(string \<times> request_meta) list"
  lite_total_block_nums :: int

definition init_lite :: lite where
  "init_lite = \<lparr> lite_requests_meta = [], lite_total_block_nums = 0 \<rparr>"

definition trace_hash_block_size :: "int \<Rightarrow> int" where
  "trace_hash_block_size hash_block_size = max 512 hash_block_size"

definition lite_get_num_new_matched_tokens ::
  "(int \<Rightarrow> int list \<Rightarrow> bytes \<Rightarrow> bytes list) option \<Rightarrow> int \<Rightarrow> bytes \<Rightarrow> request \<Rightarrow> lite \<Rightarrow> (int \<times> bool) res \<times> lite" where
  "lite_get_num_new_matched_tokens generate_hash hash_block_size lite_seed request st =
     (let bs = trace_hash_block_size hash_block_size;
          req_blocks_num = int (length (all_token_ids request)) div bs
      in if req_blocks_num < 1 then (Inr (0, False), st)
         else if map_of (lite_requests_meta st) (request_id request) = None
         then case generate_hash of
                None \<Rightarrow> (Inl (OtherException ''AttributeError''), st)
              | Some generate \<Rightarrow>
                  (Inr (0, False),
                   st\<lparr>lite_requests_meta := AList.update (request_id request)
                        \<lparr> rm_ucm_block_ids = generate bs (all_token_ids request) lite_seed,
                          rm_hbm_hit_block_num = 0, rm_total_hit_block_num = 0,
                          rm_num_token_ids = int (length (all_token_ids request)),
                          rm_vllm_block_ids = [], rm_token_processed = 0 \<rparr> (lite_requests_meta st),
                      lite_total_block_nums := lite_total_block_nums st + req_blocks_num\<rparr>)
         else (Inr (0, False), st))"

definition lite_build_connector_meta :: "string set \<Rightarrow> lite \<Rightarrow> connector_metadata \<times> lite" where
  "lite_build_connector_meta finished_req_ids st =
     (\<lparr> cm_request_meta = [], cm_preempted_req_ids = {} \<rparr>,
      st\<lparr>lite_requests_meta := dict_drop finished_req_ids (lite_requests_meta st)\<rparr>)"

definition lite_request_finished :: "string \<Rightarrow> lite \<Rightarrow> bool \<times> lite" where
  "lite_request_finished req_id st = (False, st\<lparr>lite_requests_meta := AList.delete req_id (lite_requests_meta st)\<rparr>)"

text \<open>
  \<open>_compute_block_data_size\<close> on the attributes it reads; an attribute that is absent and one
  that is zero are alike where the source tests for truth.
\<close>

record lite_model =
  lm_num_hidden_layers :: int
  lm_dtype :: string
  lm_kv_lora_rank :: int
  lm_qk_rope_head_dim :: int
  lm_index_head_dim :: int
  lm_num_key_value_heads :: "int option"
  lm_num_attention_heads :: "int option"
  lm_head_dim :: int
  lm_hidden_size :: int

definition dtype_bytes :: "string \<Rightarrow> int" where
  "dtype_bytes dt =
     (case map_of [(''bfloat16'', 2), (''float16'', 2), (''float32'', 4), (''int8'', 1)] dt of
        None \<Rightarrow> 2 | Some n \<Rightarrow> n)"

definition compute_block_data_size :: "lite_model \<Rightarrow> int \<Rightarrow> int \<Rightarrow> int" where
  "compute_block_data_size M bs tp =
     (let dt = dtype_bytes (lm_dtype M);
          per_tok =
            (if lm_kv_lora_rank M \<noteq> 0 \<and> lm_qk_rope_head_dim M \<noteq> 0 \<and> lm_index_head_dim M \<noteq> 0
             then (lm_kv_lora_rank M + lm_qk_rope_head_dim M + lm_index_head_dim M) * dt
             else if lm_kv_lora_rank M \<noteq> 0 \<and> lm_qk_rope_head_dim M \<noteq> 0
             then (lm_kv_lora_rank M + lm_qk_rope_head_dim M) * dt
             else
               let kv_heads = (case lm_num_key_value_heads M of
                                 Some h \<Rightarrow> h
                               | None \<Rightarrow> (case lm_num_attention_heads M of Some h \<Rightarrow> h | None \<Rightarrow> 0));
                   heads = (case lm_num_attention_heads M of Some h \<Rightarrow> h | None \<Rightarrow> 1);
                   head_dim = (if lm_head_dim M \<noteq> 0 then lm_head_dim M else lm_hidden_size M div max heads 1)
               in 2 * head_dim * (kv_heads div tp) * dt)
      in lm_num_hidden_layers M * bs * per_tok)"

section \<open>Cache configurations\<close>















section \<open>Selection\<close>









section \<open>The front connector\<close>

definition record_prefix_cache_token_metrics :: "int \<Rightarrow> int \<Rightarrow> int \<Rightarrow> int \<Rightarrow> (string \<times> real) list" where
  "record_prefix_cache_token_metrics num_tokens num_computed_tokens external_hit_tokens connector_block_size =
     (let total_tokens = max num_tokens 0;
          gpu_hbm_hit_tokens = min (max num_computed_tokens 0) total_tokens;
          ucm_hit_tokens = min (max external_hit_tokens 0) (max (total_tokens - gpu_hbm_hit_tokens) 0);
          bs = max connector_block_size 1
      in [(''total_prefix_query_tokens_total'', of_int total_tokens),
          (''gpu_hbm_hit_tokens_total'', of_int gpu_hbm_hit_tokens),
          (''ucm_hit_tokens_total'', of_int ucm_hit_tokens),
          (''total_prefix_query_blocks_total'', of_int (total_tokens div bs)),
          (''gpu_hbm_hit_blocks_total'', of_int (gpu_hbm_hit_tokens div bs))])"

definition front_get_num_new_matched_tokens ::
  "world \<Rightarrow> sched_conf \<Rightarrow> sched_request \<Rightarrow> int \<Rightarrow> sched \<Rightarrow> trace \<Rightarrow> (int \<times> bool) res \<times> sched \<times> trace" where
  "front_get_num_new_matched_tokens W C request num_computed_tokens st t =
     (case get_num_new_matched_tokens W C request num_computed_tokens st t of
        (Inl e, st, t) \<Rightarrow> (Inl e, st, t)
      | (Inr (external_hit_tokens, need_load), st, t) \<Rightarrow>
          (Inr (external_hit_tokens, need_load), st,
           update_stats (record_prefix_cache_token_metrics (sr_num_tokens request) num_computed_tokens
             external_hit_tokens (cf_block_size C)) t))"

section \<open>Vocabulary of the properties\<close>

text \<open>
  What rank \<open>r\<close> of \<open>cp\<close> transfers for a list of device blocks that starts at block \<open>s\<close> of the
  request: with each block the identifier of its own share of it.
\<close>

definition cp_paired :: "int \<Rightarrow> int \<Rightarrow> int \<Rightarrow> bytes list \<Rightarrow> int list \<Rightarrow> bytes list \<times> int list \<Rightarrow> bool" where
  "cp_paired cp r s ucm vllm pair \<longleftrightarrow>
     fst pair = map (\<lambda>k. ucm ! ((nat s + k) * nat cp + nat r)) [0..<length (snd pair)] \<and>
     snd pair = map (\<lambda>k. vllm ! (nat s + k)) [0..<length (snd pair)]"






definition example_cp_groups :: cp_groups where
  "example_cp_groups = \<lparr> pcp_world_size = 1, pcp_rank = 0, dcp_world_size = 2, dcp_rank = 1 \<rparr>"

definition example_cp_config :: vllm_config where
  "example_cp_config =
     \<lparr> cfg_model = ''m'', cfg_dtype = ''bfloat16'', cfg_tensor_parallel_size = 2,
       cfg_decode_context_parallel_size = Some 2, cfg_speculative = None, cfg_cache_dtype = None,
       cfg_indexer_kv_dtype = None, cfg_enable_sparse_sfa_c8 = False, cfg_enable_sparse_li_c8 = False,
       cfg_hf_text_config = None, cfg_hf_config = None, cfg_hf_config_text_config = None \<rparr>"

definition example_cp_conf :: cp_conf where
  "example_cp_conf =
     init_cp_worker plain_env ''digest'' example_cp_config example_layer_conf (Some True) example_cp_groups 1 2"

definition example_cp_meta :: request_meta where
  "example_cp_meta =
     \<lparr> rm_ucm_block_ids = [''a'', ''b'', ''c'', ''d''], rm_hbm_hit_block_num = 0, rm_total_hit_block_num = 1,
       rm_num_token_ids = 16, rm_vllm_block_ids = [], rm_token_processed = 8 \<rparr>"




section \<open>Shares of the context-parallel ranks\<close>

lemma stride_condition:
  fixes j n r :: nat
  assumes "r < n"
  shows "r \<le> j \<and> (j - r) mod n = 0 \<longleftrightarrow> j mod n = r"
proof
  assume "j mod n = r"
  moreover from this have "r \<le> j" using mod_less_eq_dividend [of j n] by simp
  moreover have "j mod n = r mod n" using assms \<open>j mod n = r\<close> by simp
  then have "n dvd j - r" using \<open>r \<le> j\<close> by (simp add: mod_eq_dvd_iff_nat)
  ultimately show "r \<le> j \<and> (j - r) mod n = 0" by (simp add: dvd_eq_mod_eq_0)
next
  assume *: "r \<le> j \<and> (j - r) mod n = 0"
  then have "j mod n = r mod n" by (simp add: mod_eq_dvd_iff_nat dvd_eq_mod_eq_0)
  then show "j mod n = r" using assms by simp
qed

lemma filter_upt_eq: "r < n \<Longrightarrow> filter (\<lambda>i. i = r) [0..<n] = [r]"
  by (induction n) (auto simp: filter_empty_conv less_Suc_eq)

lemma stride_indices: "r < n \<Longrightarrow> filter (\<lambda>j. j mod n = r) [0..<L * n] = map (\<lambda>k. k * n + r) [0..<L]"
proof (induction L)
  case (Suc L)
  have "[L * n..<L * n + n] = map (\<lambda>i. L * n + i) [0..<n]"
    by (rule nth_equalityI) simp_all
  then have "filter (\<lambda>j. j mod n = r) [L * n..<L * n + n] = map (\<lambda>i. L * n + i) (filter (\<lambda>i. i = r) [0..<n])"
    by (auto simp: filter_map o_def intro!: filter_cong)
  then have last: "filter (\<lambda>j. j mod n = r) [L * n..<L * n + n] = [L * n + r]"
    using Suc.prems by (simp add: filter_upt_eq)
  have "[0..<Suc L * n] = [0..<L * n] @ [L * n..<L * n + n]"
    using upt_add_eq_append [of 0 "L * n" n] by (simp add: add.commute)
  then show ?case using Suc last by simp
qed simp

lemma stride_blocks:
  assumes "length xs = L * n" "r < n"
  shows "py_stride xs r n = map (\<lambda>k. xs ! (k * n + r)) [0..<L]"
  unfolding py_stride_def assms(1) stride_condition [OF assms(2)] stride_indices [OF assms(2)]
  by (simp add: o_def)

lemma share_aligned:
  assumes "aligned cp s ucm vllm pair" "0 < cp" "cpc_cp_world_size P = cp" "0 \<le> cpc_current_rank P" "cpc_current_rank P < cp"
  shows "cp_paired cp (cpc_current_rank P) s ucm vllm (cp_share P pair)"
proof -
  obtain us vs where p: "pair = (us, vs)" by (rule prod.exhaust)
  let ?r = "nat (cpc_current_rank P)" and ?n = "nat cp"
  have len: "length us = length vs * ?n"
  proof -
    have "int (length us) = int (length vs * ?n)" using assms(1,2) by (simp add: aligned_def p)
    then show ?thesis by (simp only: of_nat_eq_iff)
  qed
  have r: "?r < ?n" using assms by simp
  have el: "vs ! k = vllm ! (nat s + k)" "us ! (k * ?n + ?r) = ucm ! ((nat s + k) * ?n + ?r)" if "k < length vs" for k
    using assms(1) that r by (simp_all add: aligned_def p)
  have "vs = map (\<lambda>k. vllm ! (nat s + k)) [0..<length vs]"
    by (rule nth_equalityI) (simp_all add: el)
  moreover have "py_stride us ?r ?n = map (\<lambda>k. ucm ! ((nat s + k) * ?n + ?r)) [0..<length vs]"
    unfolding stride_blocks [OF len r] using el(2) by simp
  moreover have "us = [] \<longleftrightarrow> vs = []" using len assms(2) by auto
  ultimately show ?thesis by (auto simp: cp_share_def cp_paired_def p assms(3))
qed

lemma quotient_less:
  fixes x d m :: int
  assumes "0 < d" "x < d * m"
  shows "x div d < m"
proof (rule ccontr)
  assume "\<not> x div d < m"
  then have "d * m \<le> d * (x div d)" using assms(1) by (intro mult_left_mono) simp_all
  also have "\<dots> \<le> x" using mult_div_mod_eq [of d x] pos_mod_sign [OF assms(1), of x] by linarith
  finally show False using assms(2) by simp
qed

lemma share_split:
  fixes share prefill decode :: int
  assumes "share \<in> {0..<prefill * decode}" "0 < decode"
  shows "\<exists>!(p, d). p \<in> {0..<prefill} \<and> d \<in> {0..<decode} \<and> decode * p + d = share"
proof (rule ex1I [of _ "(share div decode, share mod decode)"], goal_cases)
  case 1
  have "share div decode < prefill" using assms by (intro quotient_less) (simp_all add: mult.commute)
  then show ?case using assms by (simp add: pos_imp_zdiv_nonneg_iff)
next
  case (2 y)
  then show ?case using assms(2) by (auto simp: split_beta div_pos_pos_trivial prod_eq_iff)
qed

section \<open>The layouts the selection recognises\<close>











section \<open>Properties\<close>

lemma cp_bind_plan:
  assumes "map_of (cm_request_meta metadata) q = Some plan"
  shows "\<exists>metadata'. lw_connector_metadata (cp_bind_connector_metadata P metadata lw) = Some metadata' \<and>
    map_of (cm_request_meta metadata') q = Some (cp_share_plan P plan)"
  using assms by (simp add: cp_bind_connector_metadata_def bind_connector_metadata_def map_of_map)

text \<open>
  C12: under context parallelism the scheduler's identifiers and each rank's device blocks
  belong together. A plan made by the scheduler's connector for blocks of
  \<open>prefill * decode\<close> shares is, once bound on the worker that is rank \<open>dcp_rank\<close> of its decode
  group and \<open>pcp_rank\<close> of its prefill group, a plan that pairs the \<open>k\<close>-th device block with
  share \<open>dcp_world_size * pcp_rank + dcp_rank\<close> of the same block of the request, for the loads and for the dumps;
  no two ranks have the same share and every share has a rank.
\<close>

theorem cp_blocks_paired:
  assumes "init_cp_scheduler E digest cfg is_mla C0 G' prefill decode = Inr C"
    and "P = init_cp_worker E' digest' cfg' L layerwise_flag G prefill decode"
    and "dcp_world_size G = decode" "0 \<le> pcp_rank G" "pcp_rank G < prefill" "0 \<le> dcp_rank G" "dcp_rank G < decode"
    and "generate_dispatch_meta C rm n vllm need_load = (plan, rm')" "meta_ok C rm" "conf_ok C" "0 \<le> n"
    and "need_load \<longrightarrow> rm_total_hit_block_num rm \<le> int (length vllm)"
    and "rm_token_processed rm + n \<le> int (length (rm_vllm_block_ids rm @ vllm)) * cf_block_size C"
    and "(rm_token_processed rm + n) div cf_block_size C * cf_cp_world_size C \<le> int (length (rm_ucm_block_ids rm))"
    and "rm_token_processed rm + n \<le> rm_num_token_ids rm"
    and "map_of (cm_request_meta metadata) q = Some plan"
  shows "(\<exists>metadata' plan'. lw_connector_metadata (cp_bind_connector_metadata P metadata lw) = Some metadata' \<and>
      map_of (cm_request_meta metadata') q = Some plan' \<and>
      cp_paired (prefill * decode) (decode * pcp_rank G + dcp_rank G) (rm_hbm_hit_block_num rm)
        (rm_ucm_block_ids rm) vllm (dm_load_block_ids plan') \<and>
      cp_paired (prefill * decode) (decode * pcp_rank G + dcp_rank G) (dm_dump_block_start plan)
        (rm_ucm_block_ids rm) (rm_vllm_block_ids rm @ vllm) (dm_dump_block_ids plan')) \<and>
    (\<forall>share \<in> {0..<prefill * decode}. \<exists>!(p, d). p \<in> {0..<prefill} \<and> d \<in> {0..<decode} \<and> decode * p + d = share)"
proof
  have cp: "cf_cp_world_size C = prefill * decode" "cpc_cp_world_size P = prefill * decode"
    "cpc_current_rank P = decode * pcp_rank G + dcp_rank G"
    using assms(1-3) by (auto simp: init_cp_scheduler_def init_cp_worker_def Let_def bindR_eq_Inr)
  have pos: "0 < prefill" "0 < decode" using assms(4-7) by auto
  have "decode * pcp_rank G + dcp_rank G < decode * (pcp_rank G + 1)" using assms(7) by (simp add: distrib_left)
  also have "\<dots> \<le> prefill * decode" using assms(5) pos by (simp add: mult.commute mult_left_mono)
  finally have rank: "0 \<le> cpc_current_rank P" "cpc_current_rank P < prefill * decode"
    using assms(4,6) pos by (simp_all add: cp)
  note paired = share_aligned [OF _ mult_pos_pos [OF pos] cp(2) rank, unfolded cp(3)]
  have load: "cp_paired (prefill * decode) (decode * pcp_rank G + dcp_rank G) (rm_hbm_hit_block_num rm)
      (rm_ucm_block_ids rm) vllm (dm_load_block_ids (cp_share_plan P plan))"
    using paired [OF plan_load_aligned [OF assms(8-10,12), unfolded cp]] by (simp add: cp_share_plan_def)
  have dump: "cp_paired (prefill * decode) (decode * pcp_rank G + dcp_rank G) (dm_dump_block_start plan)
      (rm_ucm_block_ids rm) (rm_vllm_block_ids rm @ vllm) (dm_dump_block_ids (cp_share_plan P plan))"
    using paired [OF plan_dump_aligned [OF assms(8-11,13-15), unfolded cp(1)]] by (simp add: cp_share_plan_def)
  show "\<exists>metadata' plan'. lw_connector_metadata (cp_bind_connector_metadata P metadata lw) = Some metadata' \<and>
      map_of (cm_request_meta metadata') q = Some plan' \<and>
      cp_paired (prefill * decode) (decode * pcp_rank G + dcp_rank G) (rm_hbm_hit_block_num rm)
        (rm_ucm_block_ids rm) vllm (dm_load_block_ids plan') \<and>
      cp_paired (prefill * decode) (decode * pcp_rank G + dcp_rank G) (dm_dump_block_start plan)
        (rm_ucm_block_ids rm) (rm_vllm_block_ids rm @ vllm) (dm_dump_block_ids plan')"
    using cp_bind_plan [OF assms(16)] load dump by blast
  show "\<forall>share \<in> {0..<prefill * decode}. \<exists>!(p, d). p \<in> {0..<prefill} \<and> d \<in> {0..<decode} \<and> decode * p + d = share"
    by (intro ballI share_split) (use pos in simp_all)
qed

lemma cp_blocks_paired_witness:
  "\<exists>C plan rm' metadata' plan'.
     init_cp_scheduler plain_env ''digest'' example_cp_config True example_sched_conf example_cp_groups 1 2 = Inr C \<and>
     generate_dispatch_meta C example_cp_meta 8 [7, 8] True = (plan, rm') \<and>
     lw_connector_metadata (cp_bind_connector_metadata example_cp_conf
       \<lparr> cm_request_meta = [(''r'', plan)], cm_preempted_req_ids = {} \<rparr> (init_layerwise (init_worker CudaDevice True False))) = Some metadata' \<and>
     map_of (cm_request_meta metadata') ''r'' = Some plan' \<and>
     cp_paired 2 1 0 [''a'', ''b'', ''c'', ''d''] [7, 8] (dm_load_block_ids plan')"
proof -
  obtain C where C: "init_cp_scheduler plain_env ''digest'' example_cp_config True example_sched_conf example_cp_groups 1 2 = Inr C"
      "cf_block_size C = 8" "cf_cp_world_size C = 2"
    by (simp add: init_cp_scheduler_def Let_def make_request_block_hasher_def example_sched_conf_def)
  obtain plan rm' where g: "generate_dispatch_meta C example_cp_meta 8 [7, 8] True = (plan, rm')" by fastforce
  have m: "map_of (cm_request_meta \<lparr> cm_request_meta = [(''r'', plan)], cm_preempted_req_ids = {} \<rparr>) ''r'' = Some plan"
    by simp
  have "\<exists>metadata' plan'. lw_connector_metadata (cp_bind_connector_metadata example_cp_conf
       \<lparr> cm_request_meta = [(''r'', plan)], cm_preempted_req_ids = {} \<rparr> (init_layerwise (init_worker CudaDevice True False))) = Some metadata' \<and>
     map_of (cm_request_meta metadata') ''r'' = Some plan' \<and>
     cp_paired (1 * 2) (2 * pcp_rank example_cp_groups + dcp_rank example_cp_groups) (rm_hbm_hit_block_num example_cp_meta)
        (rm_ucm_block_ids example_cp_meta) [7, 8] (dm_load_block_ids plan')"
    using cp_blocks_paired [OF C(1) example_cp_conf_def _ _ _ _ _ g _ _ _ _ _ _ _ m, of "init_layerwise (init_worker CudaDevice True False)"] C(2,3)
    by (auto simp: example_cp_groups_def example_cp_meta_def meta_ok_def conf_ok_def)
  then show ?thesis using C(1) g by (simp add: example_cp_groups_def example_cp_meta_def)
qed

lemma rank_dump_subset:
  assumes "wc_is_mla K"
  shows "set (fst (get_rank_dump_blocks K request)) \<subseteq>
    set (fst (select_mla_dump_blocks (wc_tp_rank K) (wc_tp_size K) (dm_dump_block_start request) (dm_dump_block_ids request)))"
proof -
  have "set (fst (drop_null_vllm_blocks blocks)) \<subseteq> set (fst blocks)" for blocks
    by (cases blocks) (auto simp: drop_null_vllm_blocks_def Let_def dest: set_zip_leftD)
  then show ?thesis using assms by (simp add: get_rank_dump_blocks_def Let_def)
qed

text \<open>
  With MLA and a decode group the stripes of the ranks do not cover a dump: the rank is divided
  by the size of the decode group and the stride is not, so the blocks whose position is
  beyond the highest divided rank are dumped by no worker.
\<close>

lemma cp_mla_dump_gap:
  assumes "wc_is_mla K" "wc_tp_size K = dcp_world_size G * m" "0 < dcp_world_size G" "0 < m"
    and "dm_dump_block_ids request = (us, vs)" "length us = length vs" "distinct us" "i < length us"
    and "m \<le> (dm_dump_block_start request + int i) mod wc_tp_size K"
    and "P = init_cp_worker E digest cfg (L\<lparr>ly_worker_conf := K\<lparr>wc_tp_rank := r\<rparr>\<rparr>) layerwise_flag G prefill decode"
  shows "us ! i \<notin> set (fst (get_rank_dump_blocks (ly_worker_conf (cpc_layer_conf P)) request))"
proof
  let ?tp = "wc_tp_size K" and ?rank = "r mod wc_tp_size K div dcp_world_size G"
  let ?mine = "py_stride us (nat ((?rank mod ?tp - dm_dump_block_start request) mod ?tp)) (nat ?tp)"
  have tp: "0 < ?tp" using assms(2-4) by simp
  have "r mod ?tp < dcp_world_size G * m" using tp assms(2) pos_mod_bound [OF tp] by simp
  then have rank: "0 \<le> ?rank" "?rank < m"
    using tp assms(3) quotient_less by (simp_all add: pos_imp_zdiv_nonneg_iff)
  assume "us ! i \<in> set (fst (get_rank_dump_blocks (ly_worker_conf (cpc_layer_conf P)) request))"
  moreover have K: "wc_is_mla (ly_worker_conf (cpc_layer_conf P))" "wc_tp_size (ly_worker_conf (cpc_layer_conf P)) = ?tp"
      "wc_tp_rank (ly_worker_conf (cpc_layer_conf P)) = ?rank"
    using assms(1,10) by (simp_all add: init_cp_worker_def Let_def)
  ultimately have "us ! i \<in> set ?mine"
    using rank_dump_subset [OF K(1), of request] unfolding K(2,3) assms(5) select_mla_dump_blocks_def get_mla_dump_slice_def Let_def
    by auto
  then obtain j where "us ! i = us ! j" "j < length us" "(dm_dump_block_start request + int j) mod ?tp = ?rank mod ?tp"
    unfolding stride_index [OF tp] by auto
  moreover from this have "j = i" using assms(7,8) nth_eq_iff_index_eq by metis
  moreover have "?rank mod ?tp = ?rank"
    using rank assms(2-4) by (intro mod_pos_pos_trivial) (auto intro: order_less_le_trans)
  ultimately show False using rank assms(9) by simp
qed

text \<open>
  The mock connector reports all of the expected blocks as external although it records some of
  them as already on the device, so it reports more tokens than it will load.
\<close>

lemma mock_reports_more_than_it_loads:
  assumes "get_num_new_matched_tokens W C request n st t = (Inr (hits, async), st1, t1)" "expected prompt < hits"
    and "map_of (requests_meta st1) (request_id (sr_request request)) = Some rm"
    and "0 < rm_hbm_hit_block_num rm" "0 < cf_block_size C" "cf_block_size C \<le> expected prompt"
    and "mock_get_num_new_matched_tokens W C expected request prompt n st t = (Inr (told, b), st', t')"
  shows "\<exists>rm'. map_of (requests_meta st') (request_id (sr_request request)) = Some rm' \<and>
    (rm_total_hit_block_num rm' - rm_hbm_hit_block_num rm') * cf_block_size C < told"
proof -
  have "0 < expected prompt div cf_block_size C" using assms(5,6) by (simp add: pos_imp_zdiv_pos_iff)
  then show ?thesis using assms(1-5,7)
    by (auto simp: mock_get_num_new_matched_tokens_def Let_def update_conv' min_def)
qed

text \<open>Without a \<open>generate_hash\<close> the first request of a full trace block is refused with an attribute error.\<close>

lemma lite_lookup_raises:
  assumes "trace_hash_block_size bs \<le> int (length (all_token_ids request))"
    and "map_of (lite_requests_meta st) (request_id request) = None"
  shows "lite_get_num_new_matched_tokens None bs s request st = (Inl (OtherException ''AttributeError''), st)"
proof -
  have "0 < int (length (all_token_ids request)) div trace_hash_block_size bs"
    using assms(1) by (simp add: pos_imp_zdiv_pos_iff trace_hash_block_size_def max_def split: if_splits)
  then show ?thesis using assms(2) by (simp add: lite_get_num_new_matched_tokens_def Let_def)
qed



end
