(* ===== verification/FAWA_Scheduler.thy ===== *)
theory FAWA_Scheduler
  imports Direct_Scheduler
begin

text \<open>
  The scheduler side of the connector for models that mix full attention with window attention
  (\<open>UCMFAWAConnector\<close>, hma_connector.py). A request's canonical hash blocks are kept in two
  stores: the full-attention (FA) store has a row per block, the window-attention (WA) store a
  row per block boundary with the tail of the window there. A lookup finds the longest prefix
  of FA rows that ends at a boundary with a WA row; the plans of a step name, for each cache
  group, the physical blocks of the rows to load and to dump.
\<close>

section \<open>State\<close>

record group_meta =
  gm_token_block_size :: int
  gm_tail_blocks :: int
  gm_tail_tokens :: int

record fawa_conf =
  fc_hash_block_size :: int
  fc_group_metas :: "group_meta list"
  fc_fa_group_ids :: "nat list"
  fc_window_group_ids :: "nat list"
  fc_transient_group_ids :: "nat set"
  fc_fa_store :: "store_ref option"
  fc_wa_store :: "store_ref option"
  fc_is_v41_layout :: bool
  fc_prefix_replay_tokens :: int
  fc_load_tokens_threshold :: int
  fc_persist_token_threshold :: int
  fc_use_request_async_load :: bool
  fc_wa_dump_block_wise :: bool
  fc_request_block_hasher :: "request \<Rightarrow> bytes list res"

record fawa_request_meta =
  fm_ucm_block_ids :: "bytes list"
  fm_hbm_hit_block_num :: int
  fm_total_hit_block_num :: int
  fm_num_token_ids :: int
  fm_vllm_block_ids :: "int list list"
  fm_token_processed :: int

record fawa_dispatch_meta =
  fd_load_keys :: "bytes list"
  fd_load_hash_start :: int
  fd_load_hash_end :: int
  fd_load_vllm_block_ids :: "int list list"
  fd_dump_keys :: "bytes list"
  fd_dump_hash_start :: int
  fd_dump_hash_end :: int
  fd_dump_vllm_block_ids :: "int list list"
  fd_load_async :: bool

type_synonym fawa_dispatches = "(string \<times> fawa_dispatch_meta) list"

record fawa_metadata =
  fcm_request_meta :: fawa_dispatches
  fcm_preempted_req_ids :: "string set"

record fawa_sched =
  fs_requests_meta :: "(string \<times> fawa_request_meta) list"
  fs_pending_async_load_dispatches :: fawa_dispatches
  fs_async_load_req_ids :: "string set"
  fs_rank_consistency :: manager

section \<open>Lookup\<close>

definition fawa_stores_ready :: "fawa_conf \<Rightarrow> unit res" where
  "fawa_stores_ready C =
     (if fc_fa_store C = None then Inl (RuntimeError ''FA store is not initialized.'')
      else if fc_window_group_ids C \<noteq> [] \<and> fc_wa_store C = None
      then Inl (RuntimeError ''WA store is not initialized.'')
      else Inr ())"

text \<open>\<open>None\<close> is the reverse lookup that does not return.\<close>

definition lookup_external_hit_blocks ::
  "world \<Rightarrow> fawa_conf \<Rightarrow> manager \<Rightarrow> bytes list \<Rightarrow> trace \<Rightarrow> (int res \<times> trace) option" where
  "lookup_external_hit_blocks W C m external_keys t =
     (case (fawa_stores_ready C, fc_fa_store C) of
        (Inr _, Some fa_store) \<Rightarrow>
          (case mgr_lookup_on_prefix W m fa_store external_keys t of
             (Inl e, t) \<Rightarrow> Some (Inl e, t)
           | (Inr r, t) \<Rightarrow>
               let fa_hit_blocks = r + 1
               in if fa_hit_blocks \<le> 0 then Some (Inr 0, t)
                  else if fc_window_group_ids C = [] then Some (Inr fa_hit_blocks, t)
                  else case fc_wa_store C of
                         None \<Rightarrow> Some (Inl (RuntimeError ''WA store is not initialized.''), t)
                       | Some wa_store \<Rightarrow>
                           (case mgr_lookup_on_reverse W m wa_store (py_upto external_keys fa_hit_blocks) t of
                              None \<Rightarrow> None
                            | Some (Inl e, t) \<Rightarrow> Some (Inl e, t)
                            | Some (Inr reverse_idx, t) \<Rightarrow>
                                Some (Inr (if reverse_idx < 0 then 0 else reverse_idx + 1), t)))
      | (Inl e, _) \<Rightarrow> Some (Inl e, t)
      | (Inr _, None) \<Rightarrow> Some (Inl (RuntimeError ''FA store is not initialized.''), t))"

text \<open>The hints to one store; a failure is logged.\<close>

definition hint_hotness :: "world \<Rightarrow> store_ref option \<Rightarrow> bytes list \<Rightarrow> trace \<Rightarrow> trace" where
  "hint_hotness W store keys t =
     (case store of None \<Rightarrow> t | Some s \<Rightarrow> if keys = [] then t else snd (store_prefetch W s keys t))"

definition prefetch_hit_key_hotness ::
  "world \<Rightarrow> fawa_conf \<Rightarrow> bytes list \<Rightarrow> bytes list \<Rightarrow> trace \<Rightarrow> unit res \<times> trace" where
  "prefetch_hit_key_hotness W C fa_hbm_hit_keys all_hit_keys t =
     (case fawa_stores_ready C of
        Inl e \<Rightarrow> (Inl e, t)
      | Inr _ \<Rightarrow> (Inr (), hint_hotness W (fc_wa_store C) all_hit_keys (hint_hotness W (fc_fa_store C) fa_hbm_hit_keys t)))"

text \<open>The end of the lookup, once the number of external blocks is known.\<close>

definition fawa_record_hit ::
  "world \<Rightarrow> fawa_conf \<Rightarrow> sched_request \<Rightarrow> int \<Rightarrow> bytes list \<Rightarrow> int \<Rightarrow> fawa_sched \<Rightarrow> trace \<Rightarrow>
   (int \<times> bool) res \<times> fawa_sched \<times> trace" where
  "fawa_record_hit W C request num_computed_tokens canonical_hashes external_hit_blocks st t =
     (let hbs = fc_hash_block_size C;
          wa_hbm_hit_block_num = num_computed_tokens div hbs;
          fa_hbm_hit_keys = py_upto canonical_hashes wa_hbm_hit_block_num;
          total_hit_block_num = wa_hbm_hit_block_num + external_hit_blocks;
          replayed = (fc_prefix_replay_tokens C \<noteq> 0 \<and> total_hit_block_num * hbs \<le> fc_prefix_replay_tokens C);
          wa_computed_tokens = (if replayed then 0 else wa_hbm_hit_block_num * hbs);
          wa_hbm_hit_block_num = (if replayed then 0 else wa_hbm_hit_block_num);
          external_hit_blocks = (if replayed then 0 else external_hit_blocks);
          total_hit_block_num = (if replayed then 0 else total_hit_block_num)
      in case prefetch_hit_key_hotness W C fa_hbm_hit_keys (py_upto canonical_hashes total_hit_block_num) t of
           (Inl e, t) \<Rightarrow> (Inl e, st, t)
         | (Inr _, t) \<Rightarrow>
             let num_total_hit_tokens = external_hit_blocks * hbs + wa_computed_tokens;
                 external_hit_tokens = max 0 (num_total_hit_tokens - num_computed_tokens);
                 external_hit_tokens =
                   (if \<not> fc_is_v41_layout C \<and> num_total_hit_tokens = sr_num_tokens request
                    then max 0 (external_hit_tokens - 1) else external_hit_tokens);
                 few = (external_hit_blocks * hbs \<le> fc_load_tokens_threshold C);
                 external_hit_tokens = (if few then 0 else external_hit_tokens);
                 num_total_hit_tokens = (if few then num_computed_tokens else num_total_hit_tokens);
                 wa_hbm_hit_block_num =
                   (if few then wa_hbm_hit_block_num + external_hit_blocks else wa_hbm_hit_block_num);
                 rm = \<lparr> fm_ucm_block_ids = canonical_hashes, fm_hbm_hit_block_num = wa_hbm_hit_block_num,
                        fm_total_hit_block_num = total_hit_block_num, fm_num_token_ids = sr_num_tokens request,
                        fm_vllm_block_ids = [], fm_token_processed = num_total_hit_tokens \<rparr>
             in (Inr (external_hit_tokens, fc_use_request_async_load C \<and> external_hit_tokens > 0),
                 st\<lparr>fs_requests_meta := AList.update (request_id (sr_request request)) rm (fs_requests_meta st)\<rparr>, t))"

definition fawa_get_num_new_matched_tokens ::
  "world \<Rightarrow> fawa_conf \<Rightarrow> sched_request \<Rightarrow> int \<Rightarrow> fawa_sched \<Rightarrow> trace \<Rightarrow>
   ((int \<times> bool) res \<times> fawa_sched \<times> trace) option" where
  "fawa_get_num_new_matched_tokens W C request num_computed_tokens st t =
     (let req_id = request_id (sr_request request);
          st = st\<lparr>fs_pending_async_load_dispatches := AList.delete req_id (fs_pending_async_load_dispatches st),
                  fs_async_load_req_ids := fs_async_load_req_ids st - {req_id}\<rparr>;
          hbs = fc_hash_block_size C;
          wa_hbm_hit_block_num = num_computed_tokens div hbs;
          wa_computed_tokens = wa_hbm_hit_block_num * hbs;
          skip_external_load = (sr_num_tokens request \<le> wa_computed_tokens + fc_load_tokens_threshold C)
      in if sr_num_tokens request \<le> fc_persist_token_threshold C then Some (Inr (0, False), st, t)
         else if skip_external_load \<and> wa_hbm_hit_block_num \<le> 0 then Some (Inr (0, False), st, t)
         else case fc_request_block_hasher C (sr_request request) of
                Inl e \<Rightarrow> Some (Inr (0, False), st, t)
              | Inr canonical_hashes \<Rightarrow>
                  let fa_hbm_hit_keys = py_upto canonical_hashes wa_hbm_hit_block_num;
                      eligible_block_count =
                        (if fc_is_v41_layout C then (sr_num_tokens request - 1) div hbs else int (length canonical_hashes));
                      external_keys = py_slice canonical_hashes wa_hbm_hit_block_num eligible_block_count
                  in if skip_external_load \<or> external_keys = []
                     then (case prefetch_hit_key_hotness W C fa_hbm_hit_keys fa_hbm_hit_keys t of
                             (Inl e, t) \<Rightarrow> Some (Inl e, st, t)
                           | (Inr _, t) \<Rightarrow> Some (Inr (0, False), st, t))
                     else (case lookup_external_hit_blocks W C (fs_rank_consistency st) external_keys t of
                             None \<Rightarrow> None
                           | Some (Inl e, t) \<Rightarrow>
                               Some (fawa_record_hit W C request num_computed_tokens canonical_hashes 0 st (lookup_failed t))
                           | Some (Inr external_hit_blocks, t) \<Rightarrow>
                               Some (fawa_record_hit W C request num_computed_tokens canonical_hashes external_hit_blocks st t)))"

section \<open>The rows of a cache group\<close>

text \<open>
  \<open>np.array(xs)[indices]\<close>: an index out of range raises, a negative one counts from the end.
  The offsets of a window's tail run from the oldest block to the boundary's own.
\<close>

definition np_take :: "int list \<Rightarrow> int list \<Rightarrow> int list res" where
  "np_take xs indices = mapR (py_nth xs) indices"

definition slice_group_block_ids ::
  "fawa_conf \<Rightarrow> nat \<Rightarrow> int list \<Rightarrow> int list \<Rightarrow> bool \<Rightarrow> int list res" where
  "slice_group_block_ids C group_id group_block_ids window_boundary_token_idx fetch_wa_block_wise =
     (if group_id \<in> fc_transient_group_ids C then Inr []
      else if length (fc_group_metas C) \<le> group_id then Inl KeyError
      else
        let meta = fc_group_metas C ! group_id;
            block_of = (\<lambda>i. i div gm_token_block_size meta)
        in if group_id \<in> set (fc_window_group_ids C)
           then if gm_tail_tokens meta = 0 then Inr []
                else if fetch_wa_block_wise
                then
                  let indices = concat (map (\<lambda>b. map (\<lambda>k. block_of b - k) (rev [0..gm_tail_blocks meta - 1]))
                                   window_boundary_token_idx)
                  in if \<exists>i \<in> set indices. int (length group_block_ids) \<le> i
                     then Inl (RuntimeError ''FAWA window load exceeds the available request blocks; refusing an invalid WA slice.'')
                     else np_take group_block_ids (map (max 0) indices)
                else if window_boundary_token_idx = [] then Inl IndexError
                else
                  let boundary_block_idx = block_of (last window_boundary_token_idx) + 1
                  in if boundary_block_idx > int (length group_block_ids)
                     then Inl (RuntimeError ''FAWA window load exceeds the available request blocks; refusing an invalid WA slice.'')
                     else np_take group_block_ids
                            (map (max 0) [boundary_block_idx - gm_tail_blocks meta..boundary_block_idx - 1])
           else np_take group_block_ids (map block_of window_boundary_token_idx))"

definition boundary_tokens :: "fawa_conf \<Rightarrow> int \<Rightarrow> int \<Rightarrow> int list" where
  "boundary_tokens C first_block end_block = map (\<lambda>k. (k + 1) * fc_hash_block_size C - 1) [first_block..end_block - 1]"

definition slice_all_groups :: "fawa_conf \<Rightarrow> int list list \<Rightarrow> int \<Rightarrow> int \<Rightarrow> bool \<Rightarrow> int list list res" where
  "slice_all_groups C all_group_block_ids first_block end_block block_wise =
     mapR (\<lambda>(group_id, group_block_ids).
             slice_group_block_ids C group_id group_block_ids (boundary_tokens C first_block end_block) block_wise)
       (zip [0..<length all_group_block_ids] all_group_block_ids)"

section \<open>One scheduler step\<close>

text \<open>
  The request's metadata is an object that is updated on the way, so it is returned also when
  the plan raises.
\<close>

definition fawa_generate_dispatch_meta ::
  "fawa_conf \<Rightarrow> fawa_request_meta \<Rightarrow> int \<Rightarrow> int list list \<Rightarrow> bool \<Rightarrow> int option \<Rightarrow>
   fawa_dispatch_meta res \<times> fawa_request_meta" where
  "fawa_generate_dispatch_meta C req_meta new_tokens new_vllm_block_ids need_load computed_tokens =
     (let hbs = fc_hash_block_size C;
          req_meta = (if fm_vllm_block_ids req_meta = []
                      then req_meta\<lparr>fm_vllm_block_ids := replicate (length (fc_group_metas C)) []\<rparr> else req_meta)
      in if length new_vllm_block_ids \<noteq> length (fm_vllm_block_ids req_meta)
         then (Inl (RuntimeError ''FAWA dispatch metadata expected KV cache groups''), req_meta)
         else
           let groups = map2 (@) (fm_vllm_block_ids req_meta) new_vllm_block_ids;
               req_meta = req_meta\<lparr>fm_vllm_block_ids := groups\<rparr>;
               loads = (need_load \<and> fm_total_hit_block_num req_meta > fm_hbm_hit_block_num req_meta);
               load_start = (if loads then fm_hbm_hit_block_num req_meta else 0);
               load_end = (if loads then fm_total_hit_block_num req_meta else 0);
               load_keys = (if loads then py_slice (fm_ucm_block_ids req_meta) load_start load_end else [])
           in case (if loads then slice_all_groups C groups load_start load_end False else Inr []) of
                Inl e \<Rightarrow> (Inl e, req_meta)
              | Inr load_vllm_block_ids \<Rightarrow>
                  let computed_start_token = (case computed_tokens of None \<Rightarrow> fm_token_processed req_meta | Some n \<Rightarrow> n);
                      computed_end_token = min (fm_num_token_ids req_meta) (computed_start_token + new_tokens);
                      dump_start = max (fm_total_hit_block_num req_meta) (computed_start_token div hbs);
                      dump_end = computed_end_token div hbs;
                      dumps = (dump_end > dump_start);
                      dump_keys = (if dumps then py_slice (fm_ucm_block_ids req_meta) dump_start dump_end else [])
                  in case (if dumps then slice_all_groups C groups dump_start dump_end (fc_wa_dump_block_wise C) else Inr []) of
                       Inl e \<Rightarrow> (Inl e, req_meta)
                     | Inr dump_vllm_block_ids \<Rightarrow>
                         (Inr \<lparr> fd_load_keys = load_keys, fd_load_hash_start = load_start, fd_load_hash_end = load_end,
                                fd_load_vllm_block_ids = load_vllm_block_ids, fd_dump_keys = dump_keys,
                                fd_dump_hash_start = dump_start, fd_dump_hash_end = dump_end,
                                fd_dump_vllm_block_ids = dump_vllm_block_ids, fd_load_async = False \<rparr>,
                          req_meta\<lparr>fm_token_processed := computed_end_token\<rparr>))"

definition fawa_update_state_after_alloc ::
  "fawa_conf \<Rightarrow> string \<Rightarrow> int list list \<Rightarrow> int \<Rightarrow> fawa_sched \<Rightarrow> unit res \<times> fawa_sched" where
  "fawa_update_state_after_alloc C req_id block_ids num_external_tokens st =
     (if \<not> fc_use_request_async_load C \<or> num_external_tokens \<le> 0 then (Inr (), st)
      else case map_of (fs_requests_meta st) req_id of
             None \<Rightarrow> (Inr (), st)
           | Some req_meta \<Rightarrow>
               if length block_ids \<noteq> length (fc_group_metas C)
               then (Inl (RuntimeError ''FAWA allocated groups, expected''), st)
               else case fawa_generate_dispatch_meta C (req_meta\<lparr>fm_vllm_block_ids := block_ids\<rparr>) 0
                           (replicate (length block_ids) []) True None of
                      (r, req_meta) \<Rightarrow>
                        let st = st\<lparr>fs_requests_meta := AList.update req_id req_meta (fs_requests_meta st)\<rparr>
                        in case r of
                             Inl e \<Rightarrow> (Inl e, st)
                           | Inr async_meta \<Rightarrow>
                               (Inr (),
                                st\<lparr>fs_pending_async_load_dispatches :=
                                     AList.update req_id (async_meta\<lparr>fd_load_async := True\<rparr>)
                                       (fs_pending_async_load_dispatches st),
                                   fs_async_load_req_ids := insert req_id (fs_async_load_req_ids st)\<rparr>))"

text \<open>
  vLLM's scheduler output: the new requests with their block tables and computed tokens, and
  the running ones as parallel lists, with a flag per request or the set of resumed ids.
\<close>

record fawa_output =
  fo_scheduled_new_reqs :: "(string \<times> int list list \<times> int) list"
  fo_cached_req_ids :: "string list"
  fo_cached_new_block_ids :: "int list list option list"
  fo_cached_resumed :: "bool list + string set"
  fo_cached_num_computed_tokens :: "int list"
  fo_num_scheduled_tokens :: "(string \<times> int) list"
  fo_finished_req_ids :: "string set"
  fo_preempted_req_ids :: "string set"

text \<open>Planning one request whose metadata is known; \<open>computed\<close> is read only with replayed prefixes.\<close>

definition fawa_dispatch_request ::
  "fawa_conf \<Rightarrow> fawa_output \<Rightarrow> string \<Rightarrow> fawa_request_meta \<Rightarrow> int list list \<Rightarrow> bool \<Rightarrow> int res \<Rightarrow>
   fawa_dispatches \<times> fawa_sched \<Rightarrow> fawa_dispatches res \<times> fawa_sched" where
  "fawa_dispatch_request C out req_id req_meta new_block_ids need_load computed acc =
     (case acc of (plans, st) \<Rightarrow>
        let put = (\<lambda>req_meta. st\<lparr>fs_requests_meta := AList.update req_id req_meta (fs_requests_meta st)\<rparr>)
        in case dict_get (fo_num_scheduled_tokens out) req_id of
             Inl e \<Rightarrow> (Inl e, put req_meta)
           | Inr new_tokens \<Rightarrow>
               (case (if fc_prefix_replay_tokens C \<noteq> 0 then map_sum id Some computed else Inr None) of
                  Inl e \<Rightarrow> (Inl e, put req_meta)
                | Inr computed_tokens \<Rightarrow>
                    (case fawa_generate_dispatch_meta C req_meta new_tokens new_block_ids need_load computed_tokens of
                       (Inl e, req_meta) \<Rightarrow> (Inl e, put req_meta)
                     | (Inr plan, req_meta) \<Rightarrow> (Inr (AList.update req_id plan plans), put req_meta))))"

definition fresh_rows :: "fawa_conf \<Rightarrow> fawa_request_meta \<Rightarrow> fawa_request_meta" where
  "fresh_rows C req_meta = req_meta\<lparr>fm_vllm_block_ids := replicate (length (fc_group_metas C)) []\<rparr>"

fun fawa_dispatch_new ::
  "fawa_conf \<Rightarrow> fawa_output \<Rightarrow> (string \<times> int list list \<times> int) list \<Rightarrow> fawa_dispatches \<times> fawa_sched \<Rightarrow>
   fawa_dispatches res \<times> fawa_sched" where
  "fawa_dispatch_new C out [] (plans, st) = (Inr plans, st)"
| "fawa_dispatch_new C out ((req_id, vllm_block_ids, computed) # rest) (plans, st) =
     (case map_of (fs_requests_meta st) req_id of
        None \<Rightarrow> fawa_dispatch_new C out rest (plans, st)
      | Some req_meta \<Rightarrow>
          (case fawa_dispatch_request C out req_id (fresh_rows C req_meta) vllm_block_ids
                  (req_id \<notin> fs_async_load_req_ids st) (Inr computed) (plans, st) of
             (Inl e, st) \<Rightarrow> (Inl e, st)
           | (Inr plans, st) \<Rightarrow> fawa_dispatch_new C out rest (plans, st)))"

definition fawa_cached_item :: "fawa_conf \<Rightarrow> fawa_output \<Rightarrow> nat \<Rightarrow> string \<Rightarrow> (int list list \<times> bool) res" where
  "fawa_cached_item C out i req_id =
     bindR (py_nth (fo_cached_new_block_ids out) (int i)) (\<lambda>ids.
     bindR (case fo_cached_resumed out of Inl flags \<Rightarrow> py_nth flags (int i) | Inr ids \<Rightarrow> Inr (req_id \<in> ids)) (\<lambda>resumed.
       Inr (case ids of None \<Rightarrow> replicate (length (fc_group_metas C)) [] | Some g \<Rightarrow> g, resumed)))"

fun fawa_dispatch_cached ::
  "fawa_conf \<Rightarrow> fawa_output \<Rightarrow> nat \<Rightarrow> string list \<Rightarrow> fawa_dispatches \<times> fawa_sched \<Rightarrow>
   fawa_dispatches res \<times> fawa_sched" where
  "fawa_dispatch_cached C out i [] (plans, st) = (Inr plans, st)"
| "fawa_dispatch_cached C out i (req_id # rest) (plans, st) =
     (case map_of (fs_requests_meta st) req_id of
        None \<Rightarrow> fawa_dispatch_cached C out (Suc i) rest (plans, st)
      | Some req_meta \<Rightarrow>
          (case fawa_cached_item C out i req_id of
             Inl e \<Rightarrow> (Inl e, st)
           | Inr (new_block_ids, resumed) \<Rightarrow>
               (case fawa_dispatch_request C out req_id (if resumed then fresh_rows C req_meta else req_meta)
                       new_block_ids (resumed \<and> req_id \<notin> fs_async_load_req_ids st)
                       (py_nth (fo_cached_num_computed_tokens out) (int i)) (plans, st) of
                  (Inl e, st) \<Rightarrow> (Inl e, st)
                | (Inr plans, st) \<Rightarrow> fawa_dispatch_cached C out (Suc i) rest (plans, st))))"

definition fawa_build_connector_meta ::
  "fawa_conf \<Rightarrow> fawa_output \<Rightarrow> fawa_sched \<Rightarrow> fawa_metadata res \<times> fawa_sched" where
  "fawa_build_connector_meta C out st =
     (case fawa_dispatch_new C out (fo_scheduled_new_reqs out) ([], st) of
        (Inl e, st) \<Rightarrow> (Inl e, st)
      | (Inr plans, st) \<Rightarrow>
          (case fawa_dispatch_cached C out 0 (fo_cached_req_ids out) (plans, st) of
             (Inl e, st) \<Rightarrow> (Inl e, st)
           | (Inr plans, st) \<Rightarrow>
               let F = fo_finished_req_ids out;
                   st = st\<lparr>fs_requests_meta := dict_drop F (fs_requests_meta st),
                           fs_pending_async_load_dispatches := dict_drop F (fs_pending_async_load_dispatches st),
                           fs_async_load_req_ids := fs_async_load_req_ids st - F\<rparr>;
                   plans = dict_update plans (fs_pending_async_load_dispatches st)
               in (Inr \<lparr> fcm_request_meta = plans, fcm_preempted_req_ids = fo_preempted_req_ids out \<rparr>,
                   st\<lparr>fs_pending_async_load_dispatches := []\<rparr>)))"

definition fawa_request_finished_all_groups :: "string \<Rightarrow> fawa_sched \<Rightarrow> bool \<times> fawa_sched" where
  "fawa_request_finished_all_groups req_id st = (True, st)"

section \<open>Vocabulary of the properties\<close>

text \<open>
  A number of keys that may be reused: all of them have their FA row and, with window groups,
  the last one has its WA row.
\<close>

definition reusable :: "(bytes \<Rightarrow> bool) \<Rightarrow> (bytes \<Rightarrow> bool) \<Rightarrow> bool \<Rightarrow> bytes list \<Rightarrow> nat \<Rightarrow> bool" where
  "reusable in_fa in_wa windowed keys j \<longleftrightarrow>
     j \<le> length keys \<and> (\<forall>i < j. in_fa (keys ! i)) \<and> (windowed \<and> 0 < j \<longrightarrow> in_wa (keys ! (j - 1)))"

definition longest_reusable :: "(bytes \<Rightarrow> bool) \<Rightarrow> (bytes \<Rightarrow> bool) \<Rightarrow> bool \<Rightarrow> bytes list \<Rightarrow> nat \<Rightarrow> bool" where
  "longest_reusable in_fa in_wa windowed keys k \<longleftrightarrow>
     reusable in_fa in_wa windowed keys k \<and> (\<forall>j. reusable in_fa in_wa windowed keys j \<longrightarrow> j \<le> k)"

text \<open>
  The keys of a request after its first \<open>hbm\<close> blocks that may be reused at all: with the V4.1
  layout the last block of the prompt is left to compute.
\<close>

definition external_keys_of :: "fawa_conf \<Rightarrow> sched_request \<Rightarrow> bytes list \<Rightarrow> int \<Rightarrow> bytes list" where
  "external_keys_of C request keys hbm =
     py_slice keys hbm
       (if fc_is_v41_layout C then (sr_num_tokens request - 1) div fc_hash_block_size C else int (length keys))"

definition example_fawa_conf :: fawa_conf where
  "example_fawa_conf =
     \<lparr> fc_hash_block_size = 4, fc_group_metas =
         [\<lparr> gm_token_block_size = 4, gm_tail_blocks = 1, gm_tail_tokens = 4 \<rparr>,
          \<lparr> gm_token_block_size = 2, gm_tail_blocks = 2, gm_tail_tokens = 4 \<rparr>],
       fc_fa_group_ids = [0], fc_window_group_ids = [1], fc_transient_group_ids = {},
       fc_fa_store = Some 0, fc_wa_store = Some 0, fc_is_v41_layout = False, fc_prefix_replay_tokens = 0,
       fc_load_tokens_threshold = 0, fc_persist_token_threshold = 0, fc_use_request_async_load = True,
       fc_wa_dump_block_wise = True, fc_request_block_hasher = (\<lambda>r. Inr [''a'', ''b'', ''c'']) \<rparr>"

definition example_fawa_sched :: fawa_sched where
  "example_fawa_sched =
     \<lparr> fs_requests_meta = [], fs_pending_async_load_dispatches = [], fs_async_load_req_ids = {},
       fs_rank_consistency = init_manager True False \<rparr>"

section \<open>The lookup\<close>

lemma reusable_prefix: "reusable in_fa in_wa windowed keys j \<Longrightarrow> j \<le> length (takeWhile in_fa keys)"
proof (rule ccontr)
  assume r: "reusable in_fa in_wa windowed keys j" and "\<not> j \<le> length (takeWhile in_fa keys)"
  then have less: "length (takeWhile in_fa keys) < j" "length (takeWhile in_fa keys) < length keys"
    by (auto simp: reusable_def)
  from nth_length_takeWhile [OF less(2)] r less(1) show False by (auto simp: reusable_def)
qed

lemma longest_without_windows: "longest_reusable in_fa in_wa False keys (length (takeWhile in_fa keys))"
proof -
  have "reusable in_fa in_wa False keys (length (takeWhile in_fa keys))"
    by (auto simp: reusable_def length_takeWhile_le dest: nth_mem set_takeWhileD simp flip: takeWhile_nth)
  then show ?thesis unfolding longest_reusable_def using reusable_prefix by blast
qed

lemma longest_with_windows:
  assumes "lookup_on_reverse_doc in_wa (take (length (takeWhile in_fa keys)) keys) = r"
  shows "longest_reusable in_fa in_wa True keys (nat (r + 1))"
proof -
  let ?n = "length (takeWhile in_fa keys)"
  have n: "?n \<le> length keys" by (rule length_takeWhile_le)
  have fa: "in_fa (keys ! i)" if "i < ?n" for i
    using that by (metis nth_mem set_takeWhileD takeWhile_nth)
  show ?thesis
  proof (cases "r = - 1")
    case True
    have "j = 0" if "reusable in_fa in_wa True keys j" for j
    proof (rule ccontr)
      assume "j \<noteq> 0"
      with that reusable_prefix [OF that] have "in_wa (keys ! (j - 1))" "j - 1 < ?n" by (auto simp: reusable_def)
      then have "\<exists>b \<in> set (take ?n keys). in_wa b" using n by (auto simp: in_set_conv_nth intro!: exI [of _ "j - 1"] bexI)
      with assms True show False by (simp add: reverse_doc_none_iff)
    qed
    with True show ?thesis by (auto simp: longest_reusable_def reusable_def)
  next
    case False
    with assms reverse_doc_bounds [of in_wa "take ?n keys"] obtain i where i: "r = int i"
      by (metis nonneg_int_cases linorder_not_less order_le_less zle_add1_eq_le add.left_inverse)
    with assms n have at_i: "i < ?n" "in_wa (keys ! i)" "\<forall>j. i < j \<longrightarrow> j < ?n \<longrightarrow> \<not> in_wa (keys ! j)"
      by (auto simp: reverse_doc_eq_iff)
    have "j \<le> Suc i" if "reusable in_fa in_wa True keys j" for j
    proof (rule ccontr)
      assume "\<not> j \<le> Suc i"
      with reusable_prefix [OF that] have "i < j - 1" "j - 1 < ?n" "0 < j" by auto
      with at_i(3) that show False by (auto simp: reusable_def)
    qed
    with at_i fa n show ?thesis by (auto simp: i longest_reusable_def reusable_def nat_add_distrib)
  qed
qed

lemma lookup_longest:
  assumes "fc_fa_store C = Some fa" "store_as_documented W fa in_fa"
    and "fc_wa_store C = Some wa" "store_as_documented W wa in_wa"
  shows "\<exists>k t'. lookup_external_hit_blocks W C m keys t = Some (Inr (int k), t') \<and>
    longest_reusable (trusted in_fa m) (trusted in_wa m) (fc_window_group_ids C \<noteq> []) keys k"
proof -
  define n where "n = length (takeWhile (trusted in_fa m) keys)"
  have pre_fst: "fst (mgr_lookup_on_prefix W m fa keys t) = Inr (int n - 1)"
    unfolding mgr_prefix_documented [OF assms(2)] lookup_on_prefix_doc_def n_def trusted_def [abs_def] by (rule refl)
  obtain t1 where pre: "mgr_lookup_on_prefix W m fa keys t = (Inr (int n - 1), t1)"
    using pre_fst by (cases "mgr_lookup_on_prefix W m fa keys t") simp
  have ready: "fawa_stores_ready C = Inr ()" using assms by (simp add: fawa_stores_ready_def)
  have unfolded: "lookup_external_hit_blocks W C m keys t =
     (if n = 0 then Some (Inr 0, t1)
      else if fc_window_group_ids C = [] then Some (Inr (int n), t1)
      else case mgr_lookup_on_reverse W m wa (take n keys) t1 of
             None \<Rightarrow> None
           | Some (Inl e, t) \<Rightarrow> Some (Inl e, t)
           | Some (Inr r, t) \<Rightarrow> Some (Inr (if r < 0 then 0 else r + 1), t))"
    using pre ready assms(1,3) by (simp add: lookup_external_hit_blocks_def Let_def py_upto_nonneg)
  define r where "r = lookup_on_reverse_doc (trusted in_wa m) (take n keys)"
  obtain t2 where rev: "mgr_lookup_on_reverse W m wa (take n keys) t1 = Some (Inr r, t2)"
    using mgr_reverse_documented [OF assms(4), of m "take n keys" t1] unfolding r_def trusted_def [abs_def] by blast
  have r: "- 1 \<le> r" unfolding r_def using reverse_doc_bounds by blast
  have longest: "longest_reusable (trusted in_fa m) (trusted in_wa m) True keys (nat (r + 1))"
    by (rule longest_with_windows) (simp only: r_def n_def)
  show ?thesis
  proof (cases "fc_window_group_ids C = []")
    case True
    then have "lookup_external_hit_blocks W C m keys t = Some (Inr (int n), t1)" unfolding unfolded by simp
    moreover have "longest_reusable (trusted in_fa m) (trusted in_wa m) False keys n"
      unfolding n_def by (rule longest_without_windows)
    ultimately show ?thesis using True by auto
  next
    case False
    have "n = 0 \<Longrightarrow> r = - 1" unfolding r_def by simp
    then have "\<exists>t'. lookup_external_hit_blocks W C m keys t = Some (Inr (int (nat (r + 1))), t')"
      unfolding unfolded rev using False r by auto
    then obtain t' where "lookup_external_hit_blocks W C m keys t = Some (Inr (int (nat (r + 1))), t')" by blast
    then show ?thesis
      by (intro exI [of _ "nat (r + 1)"] exI [of _ t'] conjI) (use longest False in simp_all)
  qed
qed

lemma fawa_record_hit_tokens:
  fixes n k :: int
  assumes "fawa_stores_ready C = Inr ()" "0 \<le> n"
  defines "hit_end \<equiv> (n div fc_hash_block_size C + k) * fc_hash_block_size C"
  shows "\<exists>m st' t'. fawa_record_hit W C request n keys k st t = (Inr (m, fc_use_request_async_load C \<and> 0 < m), st', t') \<and>
    0 \<le> m \<and> (0 < m \<longrightarrow> fc_load_tokens_threshold C < k * fc_hash_block_size C \<and>
      n + m = hit_end - (if \<not> fc_is_v41_layout C \<and> hit_end = sr_num_tokens request then 1 else 0) \<and>
      (\<exists>rm. map_of (fs_requests_meta st') (request_id (sr_request request)) = Some rm \<and>
         fm_hbm_hit_block_num rm = n div fc_hash_block_size C \<and>
         fm_total_hit_block_num rm = n div fc_hash_block_size C + k \<and> fm_token_processed rm = hit_end))"
proof -
  let ?replayed = "fc_prefix_replay_tokens C \<noteq> 0 \<and> (n div fc_hash_block_size C + k) * fc_hash_block_size C \<le> fc_prefix_replay_tokens C"
  have hot: "\<exists>t'. prefetch_hit_key_hotness W C a b t = (Inr (), t')" for a b
    using assms(1) by (simp add: prefetch_hit_key_hotness_def)
  show ?thesis
  proof (cases ?replayed)
    case True
    obtain t' where "prefetch_hit_key_hotness W C (py_upto keys (n div fc_hash_block_size C)) (py_upto keys 0) t = (Inr (), t')"
      using hot by blast
    with True assms(2) show ?thesis by (simp add: fawa_record_hit_def Let_def)
  next
    case False
    obtain t' where h: "prefetch_hit_key_hotness W C (py_upto keys (n div fc_hash_block_size C))
        (py_upto keys (n div fc_hash_block_size C + k)) t = (Inr (), t')"
      using hot by blast
    have hit_end: "k * fc_hash_block_size C + n div fc_hash_block_size C * fc_hash_block_size C = hit_end"
      by (simp add: hit_end_def distrib_right)
    show ?thesis
      unfolding fawa_record_hit_def Let_def if_not_P [OF False] h prod.case sum.case hit_end
      by (auto simp: update_conv' max_def)
  qed
qed

lemma external_keys_bound:
  assumes "0 < fc_hash_block_size C" "0 \<le> hbm" "0 < sr_num_tokens request"
    and "int (length keys) * fc_hash_block_size C \<le> sr_num_tokens request" "0 < k" "k \<le> length (external_keys_of C request keys hbm)"
  shows "(hbm + int k) * fc_hash_block_size C \<le> sr_num_tokens request - (if fc_is_v41_layout C then 1 else 0)"
proof -
  let ?hbs = "fc_hash_block_size C" and ?num = "sr_num_tokens request"
  define e where "e = (if fc_is_v41_layout C then (?num - 1) div ?hbs else int (length keys))"
  have e: "0 \<le> e" using assms(1,3) by (simp add: e_def pos_imp_zdiv_nonneg_iff)
  have "k \<le> nat e - nat hbm" using assms(2,6) e by (simp add: external_keys_of_def e_def [symmetric] py_slice_nonneg)
  then have "hbm + int k \<le> e" using assms(2,5) e by linarith
  then have "(hbm + int k) * ?hbs \<le> e * ?hbs" using assms(1) by (intro mult_right_mono) simp_all
  also have "e * ?hbs \<le> ?num - (if fc_is_v41_layout C then 1 else 0)"
  proof (cases "fc_is_v41_layout C")
    case True
    have "(?num - 1) div ?hbs * ?hbs \<le> ?num - 1" using div_mult_mod_eq [of "?num - 1" ?hbs] pos_mod_sign [OF assms(1), of "?num - 1"] by linarith
    with True show ?thesis by (simp add: e_def)
  qed (use assms(4) in \<open>simp add: e_def\<close>)
  finally show ?thesis .
qed

section \<open>Properties\<close>

text \<open>
  C41: the lookup over two stores returns and reports the longest prefix that both can restore.
  When the stores answer as documented, the tokens reported are not negative and leave at least
  one token to compute; when there are any, they end at the block after the last key of the
  longest run of trusted FA rows that ends at a trusted WA row (less one token when that is the whole
  prompt), the run is longer than the threshold for loading, and the request's metadata
  records it.
\<close>

theorem fawa_matched_tokens:
  assumes "fc_fa_store C = Some fa" "store_as_documented W fa in_fa"
    and "fc_wa_store C = Some wa" "store_as_documented W wa in_wa"
    and "0 < fc_hash_block_size C" "0 \<le> n" "0 < sr_num_tokens request"
    and "fc_request_block_hasher C (sr_request request) = Inr keys"
    and "int (length keys) * fc_hash_block_size C \<le> sr_num_tokens request"
  shows "\<exists>m st' t'. fawa_get_num_new_matched_tokens W C request n st t =
      Some (Inr (m, fc_use_request_async_load C \<and> 0 < m), st', t') \<and> 0 \<le> m \<and>
    (0 < m \<longrightarrow> n + m < sr_num_tokens request \<and>
      (\<exists>k rm. longest_reusable (trusted in_fa (fs_rank_consistency st)) (trusted in_wa (fs_rank_consistency st))
          (fc_window_group_ids C \<noteq> []) (external_keys_of C request keys (n div fc_hash_block_size C)) k \<and>
        fc_load_tokens_threshold C < int k * fc_hash_block_size C \<and>
        n + m = min ((n div fc_hash_block_size C + int k) * fc_hash_block_size C) (sr_num_tokens request - 1) \<and>
        map_of (fs_requests_meta st') (request_id (sr_request request)) = Some rm \<and>
        fm_hbm_hit_block_num rm = n div fc_hash_block_size C \<and>
        fm_total_hit_block_num rm = n div fc_hash_block_size C + int k))"
proof -
  let ?hbs = "fc_hash_block_size C" and ?id = "request_id (sr_request request)"
  let ?st = "st\<lparr>fs_pending_async_load_dispatches := AList.delete ?id (fs_pending_async_load_dispatches st),
                fs_async_load_req_ids := fs_async_load_req_ids st - {?id}\<rparr>"
  define ext where "ext = external_keys_of C request keys (n div ?hbs)"
  have ready: "fawa_stores_ready C = Inr ()" using assms(1,3) by (simp add: fawa_stores_ready_def)
  have hbm: "0 \<le> n div ?hbs" "n div ?hbs * ?hbs \<le> n"
    using assms(5,6) by (simp add: pos_imp_zdiv_nonneg_iff)
      (use div_mult_mod_eq [of n ?hbs] pos_mod_sign [OF assms(5), of n] in linarith)
  obtain k t1 where k: "lookup_external_hit_blocks W C (fs_rank_consistency st) ext t = Some (Inr (int k), t1)"
      "longest_reusable (trusted in_fa (fs_rank_consistency st)) (trusted in_wa (fs_rank_consistency st))
         (fc_window_group_ids C \<noteq> []) ext k"
    using lookup_longest [OF assms(1-4)] by blast
  obtain m st' t' where rec: "fawa_record_hit W C request n keys (int k) ?st t1 = (Inr (m, fc_use_request_async_load C \<and> 0 < m), st', t')"
      "0 \<le> m" "0 < m \<longrightarrow> fc_load_tokens_threshold C < int k * ?hbs \<and>
      n + m = (n div ?hbs + int k) * ?hbs - (if \<not> fc_is_v41_layout C \<and> (n div ?hbs + int k) * ?hbs = sr_num_tokens request then 1 else 0) \<and>
      (\<exists>rm. map_of (fs_requests_meta st') ?id = Some rm \<and> fm_hbm_hit_block_num rm = n div ?hbs \<and>
         fm_total_hit_block_num rm = n div ?hbs + int k \<and> fm_token_processed rm = (n div ?hbs + int k) * ?hbs)"
    using fawa_record_hit_tokens [OF ready assms(6), of W request keys "int k" ?st t1] by blast
  have ends: "n + m = min ((n div ?hbs + int k) * ?hbs) (sr_num_tokens request - 1)" if "0 < m"
  proof -
    have "k \<noteq> 0"
    proof
      assume "k = 0"
      with rec(3) that hbm show False by (auto split: if_splits)
    qed
    moreover have "k \<le> length ext" using k(2) by (simp add: longest_reusable_def reusable_def)
    ultimately have "(n div ?hbs + int k) * ?hbs \<le> sr_num_tokens request - (if fc_is_v41_layout C then 1 else 0)"
      using external_keys_bound [OF assms(5) hbm(1) assms(7,9), of k] by (simp add: ext_def)
    with rec(3) that show ?thesis by (auto split: if_splits)
  qed
  have "fawa_get_num_new_matched_tokens W C request n st t =
      Some (fawa_record_hit W C request n keys (int k) ?st t1) \<or>
    (\<exists>st' t'. fawa_get_num_new_matched_tokens W C request n st t = Some (Inr (0, False), st', t'))"
    using assms(8) k(1) ready
    by (auto simp: fawa_get_num_new_matched_tokens_def Let_def prefetch_hit_key_hotness_def ext_def external_keys_of_def)
  then show ?thesis
  proof
    assume "fawa_get_num_new_matched_tokens W C request n st t = Some (fawa_record_hit W C request n keys (int k) ?st t1)"
    with rec ends k(2) show ?thesis unfolding ext_def by auto
  qed auto
qed

lemma fawa_matched_tokens_witness:
  "\<exists>st' t' k rm. fawa_get_num_new_matched_tokens (script_world [''a'', ''b'']) example_fawa_conf example_request 0 example_fawa_sched [] =
     Some (Inr (8, True), st', t') \<and>
     longest_reusable (trusted (\<lambda>b. b \<in> set [''a'', ''b'']) (init_manager True False))
       (trusted (\<lambda>b. b \<in> set [''a'', ''b'']) (init_manager True False)) True [''a'', ''b'', ''c''] k \<and>
     map_of (fs_requests_meta st') (request_id (sr_request example_request)) = Some rm \<and> fm_total_hit_block_num rm = int k"
proof -
  let ?run = "fawa_get_num_new_matched_tokens (script_world [''a'', ''b'']) example_fawa_conf example_request 0 example_fawa_sched []"
  have doc: "store_as_documented (script_world [''a'', ''b'']) 0 (\<lambda>b. b \<in> set [''a'', ''b''])"
    by (rule script_world_documented)
  have eight: "map_option fst ?run = Some (Inr (8, True))" by code_simp
  have keys: "external_keys_of example_fawa_conf example_request [''a'', ''b'', ''c''] 0 = [''a'', ''b'', ''c'']" by code_simp
  from fawa_matched_tokens [of example_fawa_conf 0 "script_world [''a'', ''b'']" _ 0 _ 0 example_request "[''a'', ''b'', ''c'']",
      OF _ doc _ doc, of example_fawa_sched "[]"] eight keys
  show ?thesis by (auto simp: example_fawa_conf_def example_fawa_sched_def example_request_def)
qed

end
