(* ===== verification/Spec2Isabelle.thy ===== *)
theory Spec2Isabelle
  imports Store_Config Connectors FAWA_Scheduler
begin

text \<open>
  A verification library for the vLLM side of Unified Cache Management (src/ucm): the
  connectors that move KV-cache blocks between an inference engine's accelerator memory and
  an external store.
\<close>

end
